theory Spec2Isabelle
  imports Complex_Main
begin

section \<open>Constants\<close>

definition SUPPORTED_FORMATS :: "(string \<times> string) list" where
  "SUPPORTED_FORMATS =
     [(''pdf'', ''application/pdf''), (''png'', ''image/png''),
      (''jpg'', ''image/jpeg''), (''jpeg'', ''image/jpeg'')]"

definition MAX_FILE_SIZE :: nat where
  "MAX_FILE_SIZE = 50 * 1024 * 1024"

definition API_RETRY_ATTEMPTS :: nat where
  "API_RETRY_ATTEMPTS = 3"

definition API_RETRY_DELAY :: nat where
  "API_RETRY_DELAY = 2"

section \<open>Data model\<close>

datatype ProcessingStatus = PENDING | PROCESSING | COMPLETED | FAILED | CACHED

text \<open>
  The dynamically typed values that occur in option bags, in \<open>asdict(result)\<close> and in
  what \<open>json.loads\<close> returns.  Floats are represented by exact rationals.  \<open>PEnum\<close> is a
  member of the \<open>ProcessingStatus\<close> enumeration (a plain \<open>Enum\<close>, not a \<open>str\<close> subclass).
\<close>

datatype pyval =
    PNone
  | PBool bool
  | PInt int
  | PFloat rat
  | PStr string
  | PList "pyval list"
  | PDict "(string \<times> pyval) list"
  | PEnum ProcessingStatus

text \<open>
  Exceptions: the class and the text \<open>str(e)\<close> gives.  Every class below derives from
  \<open>Exception\<close>, so an \<open>except Exception\<close> clause catches each of them.
\<close>

datatype exn_class =
    MistralException | IndexError | TypeError | JSONDecodeError | ValueError
  | FileNotFoundError | IsADirectoryError | ZeroDivisionError | OtherException

datatype exn = Exn (exn_class: exn_class) (exn_str: string)

record DocumentMetadata =
  file_name :: string
  file_size :: nat
  file_type :: string
  file_hash :: string
  language :: "string option"
  page_count :: "nat option"
  processing_time :: "rat option"
  created_at :: string

record OCRResult =
  "text" :: string
  confidence :: "rat option"
  ocr_language :: "string option"
  images :: "string list"
  tables :: "pyval list"
  "structure" :: "(string \<times> pyval) list"

text \<open>
  \<open>ProcessingResult\<close>.  The dataclass does not check the types of its fields: after
  \<open>ProcessingResult(**cached_data)\<close> the fields \<open>metadata\<close> and \<open>ocr_result\<close> hold the
  plain values \<open>json.loads\<close> produced (\<open>Inr\<close>), otherwise instances of their classes
  (\<open>Inl\<close>).  \<open>error_message\<close> is \<open>PNone\<close> when unset.
\<close>

record ProcessingResult =
  metadata :: "DocumentMetadata + pyval"
  ocr_result :: "OCRResult + pyval"
  status :: ProcessingStatus
  error_message :: pyval
  processing_options :: pyval

record Stats =
  total_processed :: nat
  successful :: nat
  failed :: nat
  cached :: nat

record Statistics = Stats +
  success_rate :: rat
  cache_hit_rate :: rat

section \<open>The environment and the mutable world\<close>

text \<open>A node of the file system, with the size \<open>stat()\<close> reports.\<close>

datatype fs_node =
    RegularFile (st_size: nat) (node_bytes: string)
  | Directory (st_size: nat)

text \<open>
  The text of a cache file, represented by what \<open>json.loads\<close> makes of it: \<open>JsonText v\<close>
  is a document that parses to \<open>v\<close>, \<open>Malformed s\<close> is a text \<open>s\<close> that the parser rejects
  (the empty file is \<open>Malformed []\<close>).
\<close>

datatype file_text = JsonText pyval | Malformed string

datatype log_level = INFO | WARNING | ERROR

text \<open>One constructor for each message the code logs, carrying the interpolated values.\<close>

datatype log_msg =
    FileNotFound string
  | FileTooLarge string nat
  | UnsupportedFormat string "string option"
  | CouldNotExtractPdfInfo exn
  | CallingApi nat nat
  | MistralApiError nat exn
  | UnexpectedError nat exn
  | ProcessingFile string
  | LoadingCached string
  | FailedToLoadCache exn
  | CachedResult string
  | FailedToCache exn
  | SuccessfullyProcessed string rat
  | FailedToProcess string exn
  | StartingBatch nat
  | ExceptionProcessing string exn
  | BatchCompleted nat nat

type_synonym options = "(string \<times> pyval) list option"

text \<open>
  The request \<open>client.chat.complete\<close> receives.  The system prompt is a function of the
  options alone and the data URI of the MIME type and the bytes alone, so the request is
  represented by these three.
\<close>

record request =
  req_model :: string
  req_options :: "(string \<times> pyval) list"
  req_mime_type :: "string option"
  req_file_data :: string

text \<open>
  The collaborators outside the repository: \<open>mimetypes.guess_type(p)[0]\<close>,
  \<open>hashlib.sha256(bytes).hexdigest()\<close>, \<open>client.chat.complete\<close> (its answer, the contents
  of the choices of the response, may depend on how many calls were made before),
  \<open>len(fitz.open(p))\<close>, \<open>langdetect.detect\<close> and the two clock readings
  \<open>datetime.now().isoformat()\<close> and \<open>(datetime.now() - start_time).total_seconds()\<close>.
\<close>

record env =
  guess_type :: "string \<Rightarrow> string option"
  sha256_hexdigest :: "string \<Rightarrow> string"
  chat_complete :: "nat \<Rightarrow> request \<Rightarrow> exn + string list"
  fitz_page_count :: "string \<Rightarrow> exn + nat"
  detect :: "string \<Rightarrow> exn + string"
  now_isoformat :: string
  elapsed_seconds :: rat

text \<open>
  What the code reads and writes: the documents, the cache directory (file name to text),
  \<open>self.stats\<close>, the log, the number of calls made to \<open>client.chat.complete\<close> and the
  delays passed to \<open>asyncio.sleep\<close>.
\<close>

record world =
  files :: "string \<rightharpoonup> fs_node"
  cache_dir :: "string \<rightharpoonup> file_text"
  stats :: Stats
  log :: "(log_level \<times> log_msg) list"
  api_calls :: nat
  slept :: "nat list"

definition logger :: "log_level \<Rightarrow> log_msg \<Rightarrow> world \<Rightarrow> world" where
  "logger lvl msg w = w\<lparr>log := log w @ [(lvl, msg)]\<rparr>"

definition sleep :: "nat \<Rightarrow> world \<Rightarrow> world" where
  "sleep d w = w\<lparr>slept := slept w @ [d]\<rparr>"

section \<open>\<open>_validate_file\<close>\<close>

definition in_supported_values :: "string option \<Rightarrow> bool" where
  "in_supported_values mime_type =
     (case mime_type of
        None \<Rightarrow> False
      | Some m \<Rightarrow> m \<in> set (map snd SUPPORTED_FORMATS))"

definition validate_file :: "env \<Rightarrow> string \<Rightarrow> world \<Rightarrow> bool \<times> world" where
  "validate_file E file_path w =
     (case files w file_path of
        None \<Rightarrow> (False, logger ERROR (FileNotFound file_path) w)
      | Some node \<Rightarrow>
          if st_size node > MAX_FILE_SIZE
          then (False, logger ERROR (FileTooLarge file_path (st_size node)) w)
          else
            let mime_type = guess_type E file_path in
            if \<not> in_supported_values mime_type
            then (False, logger ERROR (UnsupportedFormat file_path mime_type) w)
            else (True, w))"

section \<open>Paths, files and strings\<close>

text \<open>
  \<open>Path(p).name\<close> and \<open>Path(p).suffix\<close>, for a path written without \<open>.\<close> components: the
  name is the last component, the suffix starts at the last dot of the name unless that dot
  is its first or its last character.
\<close>

definition path_name :: "string \<Rightarrow> string" where
  "path_name p =
     rev (takeWhile (\<lambda>c. c \<noteq> CHR ''/'') (dropWhile (\<lambda>c. c = CHR ''/'') (rev p)))"

definition path_suffix :: "string \<Rightarrow> string" where
  "path_suffix p =
     (let name = path_name p;
          ext = rev (takeWhile (\<lambda>c. c \<noteq> CHR ''.'') (rev name))
      in if CHR ''.'' \<in> set name \<and> ext \<noteq> [] \<and> length ext + 1 < length name
         then CHR ''.'' # ext else [])"

definition lower_char :: "char \<Rightarrow> char" where
  "lower_char c =
     (if (65::nat) \<le> of_char c \<and> of_char c \<le> (90::nat)
      then char_of (of_char c + (32::nat)) else c)"

definition lower :: "string \<Rightarrow> string" where
  "lower s = map lower_char s"

text \<open>
  The characters that \<open>str.strip()\<close> removes, among those of code up to 255 (the others
  are not represented).
\<close>

definition is_space :: "char \<Rightarrow> bool" where
  "is_space c =
     ((9::nat) \<le> of_char c \<and> of_char c \<le> (13::nat)
      \<or> (28::nat) \<le> of_char c \<and> of_char c \<le> (32::nat)
      \<or> of_char c = (133::nat) \<or> of_char c = (160::nat))"

definition strip :: "string \<Rightarrow> string" where
  "strip s = rev (dropWhile is_space (rev (dropWhile is_space s)))"

text \<open>\<open>open(file_path, "rb")\<close> followed by reading the whole file.\<close>

definition open_rb :: "world \<Rightarrow> string \<Rightarrow> exn + string" where
  "open_rb w file_path =
     (case files w file_path of
        None \<Rightarrow> Inl (Exn FileNotFoundError file_path)
      | Some (Directory _) \<Rightarrow> Inl (Exn IsADirectoryError file_path)
      | Some (RegularFile _ b) \<Rightarrow> Inr b)"

text \<open>
  \<open>_calculate_file_hash\<close>: the chunks of 4096 bytes fed to \<open>update\<close> give the digest of
  the whole content.
\<close>

definition calculate_file_hash :: "env \<Rightarrow> string \<Rightarrow> world \<Rightarrow> exn + string" where
  "calculate_file_hash E file_path w =
     (case open_rb w file_path of
        Inl e \<Rightarrow> Inl e
      | Inr b \<Rightarrow> Inr (sha256_hexdigest E b))"

text \<open>\<open>_get_cache_path\<close>: the file name inside the cache directory.\<close>

definition get_cache_path :: "string \<Rightarrow> string" where
  "get_cache_path fhash = fhash @ ''.json''"

text \<open>
  \<open>_extract_pdf_info\<close>: only the key \<open>page_count\<close> of the dictionary is ever read, so the
  result is that entry, \<open>None\<close> for the empty dictionary of the \<open>except\<close> branch.
\<close>

definition extract_pdf_info :: "env \<Rightarrow> string \<Rightarrow> world \<Rightarrow> nat option \<times> world" where
  "extract_pdf_info E file_path w =
     (case (case open_rb w file_path of
              Inl e \<Rightarrow> Inl e
            | Inr b \<Rightarrow> fitz_page_count E b) of
        Inl e \<Rightarrow> (None, logger WARNING (CouldNotExtractPdfInfo e) w)
      | Inr n \<Rightarrow> (Some n, w))"

text \<open>\<open>_detect_language\<close>; a \<open>char\<close> stands for one character of the Python string.\<close>

definition detect_language :: "env \<Rightarrow> string \<Rightarrow> string" where
  "detect_language E txt =
     (if length (strip txt) < 10 then ''unknown''
      else case detect E txt of
             Inl e \<Rightarrow> ''unknown''
           | Inr l \<Rightarrow> l)"

section \<open>\<open>_call_mistral_ocr_api\<close>\<close>

text \<open>\<open>response.choices[0].message.content\<close>, an \<open>IndexError\<close> when there is no choice.\<close>

definition first_choice :: "exn + string list \<Rightarrow> exn + string" where
  "first_choice r =
     (case r of
        Inl e \<Rightarrow> Inl e
      | Inr [] \<Rightarrow> Inl (Exn IndexError ''list index out of range'')
      | Inr (c # _) \<Rightarrow> Inr c)"

text \<open>
  One iteration of \<open>for attempt in range(API_RETRY_ATTEMPTS)\<close> and the iterations after
  it.  The loop is entered with \<open>attempt = 0\<close> and goes on only from the branches
  \<open>attempt < API_RETRY_ATTEMPTS - 1\<close>, so every iteration lies inside the range and the
  loop always leaves through \<open>return\<close> or \<open>raise\<close>.  Both \<open>except\<close> clauses do the same
  but for the text they log.
\<close>

function api_attempt :: "env \<Rightarrow> request \<Rightarrow> nat \<Rightarrow> world \<Rightarrow> (exn + string) \<times> world" where
  "api_attempt E req attempt w =
     (let w1 = logger INFO (CallingApi (attempt + 1) API_RETRY_ATTEMPTS) w;
          r = first_choice (chat_complete E (api_calls w1) req);
          w2 = w1\<lparr>api_calls := api_calls w1 + 1\<rparr>
      in case r of
           Inr content \<Rightarrow> (Inr content, w2)
         | Inl e \<Rightarrow>
             let w3 = logger ERROR
                        (if exn_class e = MistralException
                         then MistralApiError (attempt + 1) e
                         else UnexpectedError (attempt + 1) e) w2
             in if attempt < API_RETRY_ATTEMPTS - 1
                then api_attempt E req (attempt + 1)
                       (sleep (API_RETRY_DELAY * (attempt + 1)) w3)
                else (Inl e, w3))"
  by pat_completeness auto
termination
  by (relation "measure (\<lambda>(E, req, attempt, w). API_RETRY_ATTEMPTS - 1 - attempt)") auto

definition ocr_request :: "env \<Rightarrow> string \<Rightarrow> options \<Rightarrow> string \<Rightarrow> request" where
  "ocr_request E file_path opts file_data =
     \<lparr>req_model = ''mistral-ocr-latest'',
      req_options = (case opts of None \<Rightarrow> [] | Some kvs \<Rightarrow> kvs),
      req_mime_type = guess_type E file_path,
      req_file_data = file_data\<rparr>"

definition call_mistral_ocr_api ::
  "env \<Rightarrow> string \<Rightarrow> options \<Rightarrow> world \<Rightarrow> (exn + string) \<times> world" where
  "call_mistral_ocr_api E file_path opts w =
     (case open_rb w file_path of
        Inl e \<Rightarrow> (Inl e, w)
      | Inr file_data \<Rightarrow> api_attempt E (ocr_request E file_path opts file_data) 0 w)"

section \<open>The dataclasses: constructors and \<open>asdict\<close>\<close>

text \<open>The constructors with the defaults of the fields and of \<open>__post_init__\<close>.\<close>

definition DocumentMetadata_init ::
  "env \<Rightarrow> string \<Rightarrow> nat \<Rightarrow> string \<Rightarrow> string \<Rightarrow> DocumentMetadata" where
  "DocumentMetadata_init E name fsize ftype fhash =
     \<lparr>file_name = name, file_size = fsize, file_type = ftype, file_hash = fhash,
      language = None, page_count = None, processing_time = None,
      created_at = now_isoformat E\<rparr>"

definition OCRResult_init :: "string \<Rightarrow> OCRResult" where
  "OCRResult_init txt =
     \<lparr>text = txt, confidence = None, ocr_language = None,
      images = [], tables = [], structure = []\<rparr>"

definition ProcessingResult_init ::
  "DocumentMetadata + pyval \<Rightarrow> OCRResult + pyval \<Rightarrow> ProcessingStatus \<Rightarrow> pyval \<Rightarrow> pyval
     \<Rightarrow> ProcessingResult" where
  "ProcessingResult_init m r st err popts =
     \<lparr>metadata = m, ocr_result = r, status = st, error_message = err,
      processing_options = (if popts = PNone then PDict [] else popts)\<rparr>"

text \<open>\<open>options or {}\<close>\<close>

definition options_or_empty :: "options \<Rightarrow> pyval" where
  "options_or_empty opts = (case opts of None \<Rightarrow> PDict [] | Some kvs \<Rightarrow> PDict kvs)"

definition opt_val :: "('a \<Rightarrow> pyval) \<Rightarrow> 'a option \<Rightarrow> pyval" where
  "opt_val f x = (case x of None \<Rightarrow> PNone | Some v \<Rightarrow> f v)"

definition asdict_metadata :: "DocumentMetadata \<Rightarrow> pyval" where
  "asdict_metadata m =
     PDict [(''file_name'', PStr (file_name m)),
            (''file_size'', PInt (int (file_size m))),
            (''file_type'', PStr (file_type m)),
            (''file_hash'', PStr (file_hash m)),
            (''language'', opt_val PStr (language m)),
            (''page_count'', opt_val (\<lambda>n. PInt (int n)) (page_count m)),
            (''processing_time'', opt_val PFloat (processing_time m)),
            (''created_at'', PStr (created_at m))]"

definition asdict_ocr :: "OCRResult \<Rightarrow> pyval" where
  "asdict_ocr r =
     PDict [(''text'', PStr (text r)),
            (''confidence'', opt_val PFloat (confidence r)),
            (''language'', opt_val PStr (ocr_language r)),
            (''images'', PList (map PStr (images r))),
            (''tables'', PList (tables r)),
            (''structure'', PDict (structure r))]"

text \<open>
  \<open>dataclasses.asdict\<close>: nested dataclass instances become dictionaries, every other
  value is copied as it is, so the member of the enumeration stays one.
\<close>

definition asdict :: "ProcessingResult \<Rightarrow> pyval" where
  "asdict r =
     PDict [(''metadata'', (case metadata r of Inl m \<Rightarrow> asdict_metadata m | Inr v \<Rightarrow> v)),
            (''ocr_result'', (case ocr_result r of Inl x \<Rightarrow> asdict_ocr x | Inr v \<Rightarrow> v)),
            (''status'', PEnum (status r)),
            (''error_message'', error_message r),
            (''processing_options'', processing_options r)]"

section \<open>JSON\<close>

text \<open>
  What the default encoder of \<open>json.dumps\<close> accepts: \<open>None\<close>, booleans, numbers, strings,
  lists and dictionaries of such values.  A member of an \<open>Enum\<close> class is none of them.
\<close>

fun serializable :: "pyval \<Rightarrow> bool" where
  "serializable (PEnum _) = False"
| "serializable (PList xs) = list_all serializable xs"
| "serializable (PDict kvs) = list_all serializable (map snd kvs)"
| "serializable _ = True"

definition json_dumps :: "pyval \<Rightarrow> exn + file_text" where
  "json_dumps v =
     (if serializable v then Inr (JsonText v)
      else Inl (Exn TypeError ''Object of type ProcessingStatus is not JSON serializable''))"

definition json_loads :: "file_text \<Rightarrow> exn + pyval" where
  "json_loads t =
     (case t of
        JsonText v \<Rightarrow> Inr v
      | Malformed _ \<Rightarrow> Inl (Exn JSONDecodeError ''Expecting value''))"

section \<open>The cache\<close>

definition ProcessingResult_fields :: "string list" where
  "ProcessingResult_fields =
     [''metadata'', ''ocr_result'', ''status'', ''error_message'', ''processing_options'']"

text \<open>
  \<open>result = ProcessingResult(**cached_data)\<close> followed by
  \<open>result.status = ProcessingStatus.CACHED\<close>: the call raises \<open>TypeError\<close> unless
  \<open>cached_data\<close> is a dictionary whose keys are field names and include the three fields
  without a default; the status read from the file is overwritten before anything reads it.
\<close>

definition cached_ProcessingResult :: "pyval \<Rightarrow> exn + ProcessingResult" where
  "cached_ProcessingResult cached_data =
     (case cached_data of
        PDict kvs \<Rightarrow>
          if \<not> list_all (\<lambda>k. k \<in> set ProcessingResult_fields) (map fst kvs)
          then Inl (Exn TypeError ''unexpected keyword argument'')
          else
            (case (map_of kvs ''metadata'', map_of kvs ''ocr_result'', map_of kvs ''status'') of
               (Some m, Some r, Some _) \<Rightarrow>
                 Inr (ProcessingResult_init (Inr m) (Inr r) CACHED
                        (case map_of kvs ''error_message'' of None \<Rightarrow> PNone | Some e \<Rightarrow> e)
                        (case map_of kvs ''processing_options'' of
                           None \<Rightarrow> PNone | Some p \<Rightarrow> p))
             | _ \<Rightarrow> Inl (Exn TypeError ''missing required positional arguments''))
      | _ \<Rightarrow> Inl (Exn TypeError ''argument after ** must be a mapping''))"

definition bump_cached :: "world \<Rightarrow> world" where
  "bump_cached w = w\<lparr>stats := (stats w)\<lparr>cached := cached (stats w) + 1\<rparr>\<rparr>"

definition bump_successful :: "world \<Rightarrow> world" where
  "bump_successful w = w\<lparr>stats := (stats w)\<lparr>successful := successful (stats w) + 1\<rparr>\<rparr>"

definition bump_failed :: "world \<Rightarrow> world" where
  "bump_failed w = w\<lparr>stats := (stats w)\<lparr>failed := failed (stats w) + 1\<rparr>\<rparr>"

definition bump_total_processed :: "world \<Rightarrow> world" where
  "bump_total_processed w =
     w\<lparr>stats := (stats w)\<lparr>total_processed := total_processed (stats w) + 1\<rparr>\<rparr>"

text \<open>
  The block \<open>if use_cache and cache_path.exists()\<close> of \<open>process_file\<close>: \<open>Some\<close> is the
  result it returns, \<open>None\<close> means that the function goes on after the block.
\<close>

definition load_cached ::
  "string \<Rightarrow> string \<Rightarrow> world \<Rightarrow> ProcessingResult option \<times> world" where
  "load_cached file_path cache_path w =
     (case cache_dir w cache_path of
        None \<Rightarrow> (None, w)
      | Some txt \<Rightarrow>
          let w1 = logger INFO (LoadingCached file_path) w in
          (case json_loads txt of
             Inl e \<Rightarrow> (None, logger WARNING (FailedToLoadCache e) w1)
           | Inr cached_data \<Rightarrow>
               (case cached_ProcessingResult cached_data of
                  Inl e \<Rightarrow> (None, logger WARNING (FailedToLoadCache e) w1)
                | Inr result \<Rightarrow> (Some result, bump_cached w1))))"

text \<open>
  The block \<open>if use_cache:\<close> after the extraction.  Opening the file for writing creates
  or empties it; \<open>json.dumps\<close> runs before anything is written.
\<close>

definition store_cached :: "string \<Rightarrow> string \<Rightarrow> ProcessingResult \<Rightarrow> world \<Rightarrow> world" where
  "store_cached file_path cache_path result w =
     (let w1 = w\<lparr>cache_dir := (cache_dir w)(cache_path \<mapsto> Malformed [])\<rparr> in
      case json_dumps (asdict result) of
        Inl e \<Rightarrow> logger WARNING (FailedToCache e) w1
      | Inr txt \<Rightarrow>
          logger INFO (CachedResult file_path)
            (w1\<lparr>cache_dir := (cache_dir w1)(cache_path \<mapsto> txt)\<rparr>))"

section \<open>\<open>process_file\<close>\<close>

text \<open>
  The metadata built after the cache block, with the page count of a PDF; \<open>node\<close> is
  what \<open>file_path.stat()\<close> found.
\<close>

definition build_metadata ::
  "env \<Rightarrow> string \<Rightarrow> string \<Rightarrow> fs_node \<Rightarrow> world \<Rightarrow> DocumentMetadata \<times> world" where
  "build_metadata E file_path fhash node w =
     (let md0 = DocumentMetadata_init E (path_name file_path) (st_size node)
                  (case guess_type E file_path of
                     None \<Rightarrow> ''unknown''
                   | Some m \<Rightarrow> if m = [] then ''unknown'' else m)
                  fhash
      in if lower (path_suffix file_path) = ''.pdf''
         then let (pdf_info, w') = extract_pdf_info E file_path w
              in (md0\<lparr>page_count := Some (case pdf_info of None \<Rightarrow> 0 | Some n \<Rightarrow> n)\<rparr>,
                  w')
         else (md0, w))"

text \<open>The body of the \<open>try\<close> block once the service has answered.\<close>

definition extraction_succeeded ::
  "env \<Rightarrow> string \<Rightarrow> options \<Rightarrow> bool \<Rightarrow> string \<Rightarrow> DocumentMetadata \<Rightarrow> string \<Rightarrow> world
     \<Rightarrow> ProcessingResult \<times> world" where
  "extraction_succeeded E file_path opts use_cache cache_path md extracted_text w =
     (let detected_language = detect_language E extracted_text;
          md2 = md\<lparr>language := Some detected_language,
                   processing_time := Some (elapsed_seconds E)\<rparr>;
          ocr = (OCRResult_init extracted_text)
                  \<lparr>confidence := Some (95 / 100),
                   ocr_language := Some detected_language\<rparr>;
          result = ProcessingResult_init (Inl md2) (Inl ocr) COMPLETED PNone
                     (options_or_empty opts);
          w3 = (if use_cache then store_cached file_path cache_path result w else w);
          w4 = bump_total_processed (bump_successful w3)
      in (result, logger INFO (SuccessfullyProcessed file_path (elapsed_seconds E)) w4))"

text \<open>The \<open>except Exception\<close> block of \<open>process_file\<close>.\<close>

definition extraction_failed ::
  "string \<Rightarrow> options \<Rightarrow> DocumentMetadata \<Rightarrow> exn \<Rightarrow> world \<Rightarrow> ProcessingResult \<times> world" where
  "extraction_failed file_path opts md e w =
     (let w3 = logger ERROR (FailedToProcess file_path e) w;
          w4 = bump_total_processed (bump_failed w3)
      in (ProcessingResult_init (Inl md) (Inl (OCRResult_init [])) FAILED
            (PStr (exn_str e)) (options_or_empty opts),
          w4))"

text \<open>From \<open>file_stat = file_path.stat()\<close> to the end of the function.\<close>

definition extract_document ::
  "env \<Rightarrow> string \<Rightarrow> options \<Rightarrow> bool \<Rightarrow> string \<Rightarrow> string \<Rightarrow> world
     \<Rightarrow> (exn + ProcessingResult) \<times> world" where
  "extract_document E file_path opts use_cache fhash cache_path w =
     (case files w file_path of
        None \<Rightarrow> (Inl (Exn FileNotFoundError file_path), w)
      | Some node \<Rightarrow>
          let (md1, w1) = build_metadata E file_path fhash node w in
          (case call_mistral_ocr_api E file_path opts w1 of
             (Inr extracted_text, w2) \<Rightarrow>
               let (result, w3) = extraction_succeeded E file_path opts use_cache
                                    cache_path md1 extracted_text w2
               in (Inr result, w3)
           | (Inl e, w2) \<Rightarrow>
               let (result, w3) = extraction_failed file_path opts md1 e w2
               in (Inr result, w3)))"

definition process_file ::
  "env \<Rightarrow> string \<Rightarrow> options \<Rightarrow> bool \<Rightarrow> world \<Rightarrow> (exn + ProcessingResult) \<times> world" where
  "process_file E file_path opts use_cache w =
     (let w1 = logger INFO (ProcessingFile file_path) w;
          (valid, w2) = validate_file E file_path w1
      in if \<not> valid
         then (Inr (ProcessingResult_init
                      (Inl (DocumentMetadata_init E (path_name file_path) 0 ''unknown'' []))
                      (Inl (OCRResult_init [])) FAILED
                      (PStr ''File validation failed'') PNone),
               w2)
         else
           (case calculate_file_hash E file_path w2 of
              Inl e \<Rightarrow> (Inl e, w2)
            | Inr fhash \<Rightarrow>
                let cache_path = get_cache_path fhash;
                    (hit, w3) = (if use_cache then load_cached file_path cache_path w2
                                 else (None, w2))
                in (case hit of
                      Some result \<Rightarrow> (Inr result, w3)
                    | None \<Rightarrow>
                        extract_document E file_path opts use_cache fhash cache_path w3)))"

section \<open>\<open>process_file\<close> as a coroutine\<close>

text \<open>
  \<open>process_file\<close> is a coroutine: at each \<open>await\<close> of work that is handed over to a
  thread or to the event loop it is suspended, and other tasks run before it is resumed.
  The places are \<open>aiofiles.open\<close>, \<open>f.read()\<close> and the closing of the file in the cache
  block, \<open>asyncio.to_thread(self.client.chat.complete, ...)\<close> and \<open>asyncio.sleep\<close> in
  \<open>_call_mistral_ocr_api\<close>, and \<open>aiofiles.open\<close>, \<open>f.write\<close> and the closing of the file
  where the result is cached.  A suspended pipeline is represented by the place where it
  waits and the values of the local variables it still needs.  The work a task hands over
  is carried out when it hands it over (the call to the service is counted and answered,
  the file is read, emptied or written); the task takes up the outcome when it is resumed.
  The path, the options and \<open>use_cache\<close> are the arguments of the call and do not change.
\<close>

datatype pstate =
    CacheOpen string
  | CacheRead string file_text
  | CacheClose string "exn + ProcessingResult"
  | ApiCall string DocumentMetadata request nat "exn + string"
  | ApiSleep string DocumentMetadata request nat
  | StoreOpen string ProcessingResult
  | StoreWrite ProcessingResult
  | StoreClose ProcessingResult "exn option"

text \<open>A pipeline is suspended again, or it has returned a result or raised.\<close>

datatype progress = Suspended pstate | Returned "exn + ProcessingResult"

text \<open>
  The start of an iteration of the retry loop: the line is logged and the call handed to
  a thread.
\<close>

definition issue_attempt ::
  "env \<Rightarrow> string \<Rightarrow> DocumentMetadata \<Rightarrow> request \<Rightarrow> nat \<Rightarrow> world \<Rightarrow> progress \<times> world" where
  "issue_attempt E fhash md req attempt w =
     (let w1 = logger INFO (CallingApi (attempt + 1) API_RETRY_ATTEMPTS) w;
          r = first_choice (chat_complete E (api_calls w1) req);
          w2 = w1\<lparr>api_calls := api_calls w1 + 1\<rparr>
      in (Suspended (ApiCall fhash md req attempt r), w2))"

text \<open>
  From \<open>file_stat = file_path.stat()\<close> to the first call of the service: the metadata,
  and the part of \<open>_call_mistral_ocr_api\<close> before its loop, whose exception is caught by
  the \<open>except\<close> block of \<open>process_file\<close>.
\<close>

definition begin_extraction ::
  "env \<Rightarrow> string \<Rightarrow> options \<Rightarrow> string \<Rightarrow> world \<Rightarrow> progress \<times> world" where
  "begin_extraction E file_path opts fhash w =
     (case files w file_path of
        None \<Rightarrow> (Returned (Inl (Exn FileNotFoundError file_path)), w)
      | Some node \<Rightarrow>
          let (md1, w1) = build_metadata E file_path fhash node w in
          (case open_rb w1 file_path of
             Inl e \<Rightarrow>
               let (result, w3) = extraction_failed file_path opts md1 e w1
               in (Returned (Inr result), w3)
           | Inr file_data \<Rightarrow>
               issue_attempt E fhash md1 (ocr_request E file_path opts file_data) 0 w1))"

text \<open>The result built in the \<open>try\<close> block from the text the service returned.\<close>

definition completed_result ::
  "env \<Rightarrow> options \<Rightarrow> DocumentMetadata \<Rightarrow> string \<Rightarrow> ProcessingResult" where
  "completed_result E opts md extracted =
     (let detected_language = detect_language E extracted;
          md2 = md\<lparr>language := Some detected_language,
                   processing_time := Some (elapsed_seconds E)\<rparr>;
          ocr = (OCRResult_init extracted)
                  \<lparr>confidence := Some (95 / 100),
                   ocr_language := Some detected_language\<rparr>
      in ProcessingResult_init (Inl md2) (Inl ocr) COMPLETED PNone (options_or_empty opts))"

text \<open>The end of the \<open>try\<close> block, after the block that caches the result.\<close>

definition finish_success ::
  "env \<Rightarrow> string \<Rightarrow> ProcessingResult \<Rightarrow> world \<Rightarrow> progress \<times> world" where
  "finish_success E file_path result w =
     (Returned (Inr result),
      logger INFO (SuccessfullyProcessed file_path (elapsed_seconds E))
        (bump_total_processed (bump_successful w)))"

text \<open>
  The service has answered: the result is built and, with the cache enabled, the cache
  file is opened for writing, which creates or empties it.
\<close>

definition answered ::
  "env \<Rightarrow> string \<Rightarrow> options \<Rightarrow> bool \<Rightarrow> string \<Rightarrow> DocumentMetadata \<Rightarrow> string \<Rightarrow> world
     \<Rightarrow> progress \<times> world" where
  "answered E file_path opts use_cache fhash md extracted w =
     (let result = completed_result E opts md extracted in
      if use_cache
      then (Suspended (StoreOpen fhash result),
            w\<lparr>cache_dir := (cache_dir w)(get_cache_path fhash \<mapsto> Malformed [])\<rparr>)
      else finish_success E file_path result w)"

text \<open>
  \<open>process_file\<close> from its first line to its first suspension: when the cache file
  exists it is opened for reading, otherwise the extraction begins.
\<close>

definition pipeline_start ::
  "env \<Rightarrow> string \<Rightarrow> options \<Rightarrow> bool \<Rightarrow> world \<Rightarrow> progress \<times> world" where
  "pipeline_start E file_path opts use_cache w =
     (let w1 = logger INFO (ProcessingFile file_path) w;
          (valid, w2) = validate_file E file_path w1
      in if \<not> valid
         then (Returned (Inr (ProcessingResult_init
                      (Inl (DocumentMetadata_init E (path_name file_path) 0 ''unknown'' []))
                      (Inl (OCRResult_init [])) FAILED
                      (PStr ''File validation failed'') PNone)),
               w2)
         else
           (case calculate_file_hash E file_path w2 of
              Inl e \<Rightarrow> (Returned (Inl e), w2)
            | Inr fhash \<Rightarrow>
                if use_cache \<and> cache_dir w2 (get_cache_path fhash) \<noteq> None
                then (Suspended (CacheOpen fhash),
                      logger INFO (LoadingCached file_path) w2)
                else begin_extraction E file_path opts fhash w2))"

text \<open>
  A suspended \<open>process_file\<close> from the place where it waits to its next suspension or to
  its end.  No step of the program removes a cache file, so the file that was opened is
  there when it is read.
\<close>

definition pipeline_resume ::
  "env \<Rightarrow> string \<Rightarrow> options \<Rightarrow> bool \<Rightarrow> pstate \<Rightarrow> world \<Rightarrow> progress \<times> world" where
  "pipeline_resume E file_path opts use_cache ps w =
     (case ps of
        CacheOpen fhash \<Rightarrow>
          (Suspended (CacheRead fhash
             (case cache_dir w (get_cache_path fhash) of
                None \<Rightarrow> Malformed []
              | Some t \<Rightarrow> t)), w)
      | CacheRead fhash content \<Rightarrow>
          (case (case json_loads content of
                   Inl e \<Rightarrow> Inl e
                 | Inr cached_data \<Rightarrow> cached_ProcessingResult cached_data) of
             Inl e \<Rightarrow> (Suspended (CacheClose fhash (Inl e)), w)
           | Inr result \<Rightarrow> (Suspended (CacheClose fhash (Inr result)), bump_cached w))
      | CacheClose fhash outcome \<Rightarrow>
          (case outcome of
             Inr result \<Rightarrow> (Returned (Inr result), w)
           | Inl e \<Rightarrow>
               begin_extraction E file_path opts fhash
                 (logger WARNING (FailedToLoadCache e) w))
      | ApiCall fhash md req attempt r \<Rightarrow>
          (case r of
             Inr content \<Rightarrow> answered E file_path opts use_cache fhash md content w
           | Inl e \<Rightarrow>
               let w3 = logger ERROR
                          (if exn_class e = MistralException
                           then MistralApiError (attempt + 1) e
                           else UnexpectedError (attempt + 1) e) w
               in if attempt < API_RETRY_ATTEMPTS - 1
                  then (Suspended (ApiSleep fhash md req attempt),
                        sleep (API_RETRY_DELAY * (attempt + 1)) w3)
                  else let (result, w4) = extraction_failed file_path opts md e w3
                       in (Returned (Inr result), w4))
      | ApiSleep fhash md req attempt \<Rightarrow> issue_attempt E fhash md req (attempt + 1) w
      | StoreOpen fhash result \<Rightarrow>
          (case json_dumps (asdict result) of
             Inl e \<Rightarrow> (Suspended (StoreClose result (Some e)), w)
           | Inr t \<Rightarrow>
               (Suspended (StoreWrite result),
                w\<lparr>cache_dir := (cache_dir w)(get_cache_path fhash \<mapsto> t)\<rparr>))
      | StoreWrite result \<Rightarrow> (Suspended (StoreClose result None), w)
      | StoreClose result failure \<Rightarrow>
          finish_success E file_path result
            (case failure of
               Some e \<Rightarrow> logger WARNING (FailedToCache e) w
             | None \<Rightarrow> logger INFO (CachedResult file_path) w))"

text \<open>
  A pipeline that no other task interrupts: it is resumed until it has returned, at most
  \<open>n\<close> times.
\<close>

fun drive ::
  "env \<Rightarrow> string \<Rightarrow> options \<Rightarrow> bool \<Rightarrow> nat \<Rightarrow> progress \<times> world \<Rightarrow> progress \<times> world" where
  "drive E file_path opts use_cache 0 x = x"
| "drive E file_path opts use_cache (Suc n) (Returned r, w) = (Returned r, w)"
| "drive E file_path opts use_cache (Suc n) (Suspended ps, w) =
     drive E file_path opts use_cache n (pipeline_resume E file_path opts use_cache ps w)"

text \<open>A bound on the number of times a suspended pipeline is resumed before it returns.\<close>

fun pstate_fuel :: "pstate \<Rightarrow> nat" where
  "pstate_fuel (CacheOpen _) = 11"
| "pstate_fuel (CacheRead _ _) = 10"
| "pstate_fuel (CacheClose _ _) = 9"
| "pstate_fuel (ApiCall _ _ _ attempt _) = 4 + 2 * (2 - attempt)"
| "pstate_fuel (ApiSleep _ _ _ attempt) = 5 + 2 * (1 - attempt)"
| "pstate_fuel (StoreOpen _ _) = 3"
| "pstate_fuel (StoreWrite _) = 2"
| "pstate_fuel (StoreClose _ _) = 1"

text \<open>
  \<open>process_file\<close> from the point where \<open>_call_mistral_ocr_api\<close> has returned or raised
  to its end, as one block.
\<close>

definition after_call ::
  "env \<Rightarrow> string \<Rightarrow> options \<Rightarrow> bool \<Rightarrow> string \<Rightarrow> DocumentMetadata
     \<Rightarrow> (exn + string) \<times> world \<Rightarrow> progress \<times> world" where
  "after_call E file_path opts use_cache cache_path md x =
     (case x of
        (Inr content, w) \<Rightarrow>
          let (result, w3) = extraction_succeeded E file_path opts use_cache cache_path md
                               content w
          in (Returned (Inr result), w3)
      | (Inl e, w) \<Rightarrow>
          let (result, w3) = extraction_failed file_path opts md e w
          in (Returned (Inr result), w3))"

section \<open>\<open>process_batch\<close>\<close>

text \<open>
  One task per input path runs \<open>async with semaphore: return await
  self.process_file(file_path, options)\<close>.  A task waits for the semaphore; once it has a
  slot its pipeline runs, with \<open>use_cache\<close> at its default \<open>True\<close>, suspended and resumed at
  its \<open>await\<close>s while the event loop runs the other tasks; when the pipeline has returned or
  raised, the slot is released and the task is done.
\<close>

datatype task = Waiting | Running pstate | Done "exn + ProcessingResult"

record batch =
  tasks :: "task list"
  sem_value :: nat
  bworld :: world

text \<open>
  What the event loop does next: task \<open>i\<close> enters the semaphore and starts its pipeline,
  or the suspended pipeline of task \<open>i\<close> is resumed.
\<close>

datatype event = Acquire nat | Resume nat

fun event_task :: "event \<Rightarrow> nat" where
  "event_task (Acquire i) = i"
| "event_task (Resume i) = i"

fun is_running :: "task \<Rightarrow> bool" where
  "is_running (Running _) = True"
| "is_running _ = False"

definition step :: "env \<Rightarrow> string list \<Rightarrow> options \<Rightarrow> event \<Rightarrow> batch \<Rightarrow> batch option" where
  "step E file_paths opts ev b =
     (case ev of
        Acquire i \<Rightarrow>
          if i < length (tasks b) \<and> i < length file_paths \<and> tasks b ! i = Waiting
             \<and> 0 < sem_value b
          then
            (case pipeline_start E (file_paths ! i) opts True (bworld b) of
               (Suspended ps, w') \<Rightarrow>
                 Some (b\<lparr>tasks := (tasks b)[i := Running ps],
                         sem_value := sem_value b - 1, bworld := w'\<rparr>)
             | (Returned r, w') \<Rightarrow>
                 Some (b\<lparr>tasks := (tasks b)[i := Done r], bworld := w'\<rparr>))
          else None
      | Resume i \<Rightarrow>
          if i < length (tasks b) \<and> i < length file_paths
          then
            (case tasks b ! i of
               Running ps \<Rightarrow>
                 (case pipeline_resume E (file_paths ! i) opts True ps (bworld b) of
                    (Suspended ps', w') \<Rightarrow>
                      Some (b\<lparr>tasks := (tasks b)[i := Running ps'], bworld := w'\<rparr>)
                  | (Returned r, w') \<Rightarrow>
                      Some (b\<lparr>tasks := (tasks b)[i := Done r],
                              sem_value := sem_value b + 1, bworld := w'\<rparr>))
             | _ \<Rightarrow> None)
          else None)"

fun run :: "env \<Rightarrow> string list \<Rightarrow> options \<Rightarrow> event list \<Rightarrow> batch \<Rightarrow> batch option" where
  "run E file_paths opts [] b = Some b"
| "run E file_paths opts (ev # evs) b =
     (case step E file_paths opts ev b of
        None \<Rightarrow> None
      | Some b' \<Rightarrow> run E file_paths opts evs b')"

fun task_outcome :: "task \<Rightarrow> (exn + ProcessingResult) option" where
  "task_outcome (Done r) = Some r"
| "task_outcome _ = None"

text \<open>
  \<open>asyncio.gather(*tasks, return_exceptions=True)\<close>: once every task is done, the list
  of their outcomes in the order of the tasks.
\<close>

definition gather :: "batch \<Rightarrow> (exn + ProcessingResult) list option" where
  "gather b = those (map task_outcome (tasks b))"

text \<open>The pipelines in flight: the tasks that hold a slot of the semaphore.\<close>

definition in_flight :: "batch \<Rightarrow> nat" where
  "in_flight b = length (filter is_running (tasks b))"

text \<open>The tasks whose call of the extraction service is running in a thread.\<close>

fun is_calling :: "task \<Rightarrow> bool" where
  "is_calling (Running (ApiCall _ _ _ _ _)) = True"
| "is_calling _ = False"

definition active_calls :: "batch \<Rightarrow> nat" where
  "active_calls b = length (filter is_calling (tasks b))"

text \<open>
  The result that the loop over the gathered outcomes builds for a task that raised.
\<close>

definition exception_result :: "env \<Rightarrow> string \<Rightarrow> exn \<Rightarrow> ProcessingResult" where
  "exception_result E file_path e =
     ProcessingResult_init
       (Inl (DocumentMetadata_init E (path_name file_path) 0 ''unknown'' []))
       (Inl (OCRResult_init [])) FAILED (PStr (exn_str e)) PNone"

text \<open>
  The loop \<open>for i, result in enumerate(results)\<close>, from index \<open>i\<close> on; \<open>gather\<close> returns
  one result per path, so \<open>file_paths[i]\<close> is in range.
\<close>

fun handle_results ::
  "env \<Rightarrow> string list \<Rightarrow> nat \<Rightarrow> (exn + ProcessingResult) list \<Rightarrow> world
     \<Rightarrow> ProcessingResult list \<times> world" where
  "handle_results E file_paths i [] w = ([], w)"
| "handle_results E file_paths i (result # results) w =
     (case result of
        Inl e \<Rightarrow>
          let w1 = logger ERROR (ExceptionProcessing (file_paths ! i) e) w;
              (rs, w2) = handle_results E file_paths (i + 1) results w1
          in (exception_result E (file_paths ! i) e # rs, w2)
      | Inr r \<Rightarrow>
          let (rs, w2) = handle_results E file_paths (i + 1) results w
          in (r # rs, w2))"

definition start_batch :: "string list \<Rightarrow> int \<Rightarrow> world \<Rightarrow> batch" where
  "start_batch file_paths max_concurrent w =
     \<lparr>tasks = replicate (length file_paths) Waiting,
      sem_value = nat max_concurrent, bworld = w\<rparr>"

text \<open>
  \<open>process_batch\<close>, along the schedule \<open>sched\<close> of the event loop.  \<open>asyncio.Semaphore\<close>
  raises \<open>ValueError\<close> for a negative value.  The result is \<open>None\<close> when \<open>sched\<close> is not
  the schedule of a run in which every task completes, so that \<open>gather\<close> returns.
\<close>

definition process_batch ::
  "env \<Rightarrow> event list \<Rightarrow> string list \<Rightarrow> options \<Rightarrow> int \<Rightarrow> world
     \<Rightarrow> ((exn + ProcessingResult list) \<times> world) option" where
  "process_batch E sched file_paths opts max_concurrent w =
     (let w1 = logger INFO (StartingBatch (length file_paths)) w in
      if max_concurrent < 0
      then Some (Inl (Exn ValueError ''Semaphore initial value must be >= 0''), w1)
      else
        (case run E file_paths opts sched (start_batch file_paths max_concurrent w1) of
           None \<Rightarrow> None
         | Some b \<Rightarrow>
             (case gather b of
                None \<Rightarrow> None
              | Some results \<Rightarrow>
                  let (processed_results, w2) =
                        handle_results E file_paths 0 results (bworld b);
                      w3 = logger INFO
                             (BatchCompleted (successful (stats w2)) (failed (stats w2))) w2
                  in Some (Inr processed_results, w3))))"

text \<open>
  The \<open>batch\<close> command of \<open>main\<close>, from the construction of \<open>BrainSAITOCR\<close> on, for the
  files the directory listing found.  The constructor starts the counters at zero (the
  lines it and \<open>main\<close> log are left out).  The parsed arguments include \<open>no_cache\<close>.
\<close>

record batch_args =
  arg_no_cache :: bool
  arg_extract_images :: bool
  arg_auto_translate :: bool
  arg_max_concurrent :: int

definition main_batch ::
  "env \<Rightarrow> event list \<Rightarrow> batch_args \<Rightarrow> string list \<Rightarrow> world
     \<Rightarrow> ((exn + ProcessingResult list) \<times> world) option" where
  "main_batch E sched args file_paths w =
     process_batch E sched file_paths
       (Some [(''extract_images'', PBool (arg_extract_images args)),
              (''preserve_formatting'', PBool True),
              (''auto_translate'', PBool (arg_auto_translate args))])
       (arg_max_concurrent args)
       (w\<lparr>stats := \<lparr>total_processed = 0, successful = 0, failed = 0, cached = 0\<rparr>\<rparr>)"

text \<open>
  What a task has become after the event loop ran it in the worlds \<open>ws\<close>, one after the
  other: started in the first one when it was waiting, resumed in the following ones.
\<close>

fun advance_task :: "env \<Rightarrow> string \<Rightarrow> options \<Rightarrow> task \<Rightarrow> world list \<Rightarrow> task" where
  "advance_task E file_path opts t [] = t"
| "advance_task E file_path opts t (w # ws) =
     advance_task E file_path opts
       (case t of
          Waiting \<Rightarrow>
            (case fst (pipeline_start E file_path opts True w) of
               Suspended ps \<Rightarrow> Running ps
             | Returned r \<Rightarrow> Done r)
        | Running ps \<Rightarrow>
            (case fst (pipeline_resume E file_path opts True ps w) of
               Suspended ps' \<Rightarrow> Running ps'
             | Returned r \<Rightarrow> Done r)
        | Done r \<Rightarrow> Done r) ws"

text \<open>
  The states of the shared world in which task \<open>i\<close> ran along a schedule: the world
  before each of its own events.
\<close>

fun views :: "env \<Rightarrow> string list \<Rightarrow> options \<Rightarrow> event list \<Rightarrow> batch \<Rightarrow> nat \<Rightarrow> world list" where
  "views E file_paths opts [] b i = []"
| "views E file_paths opts (ev # evs) b i =
     (case step E file_paths opts ev b of
        None \<Rightarrow> []
      | Some b' \<Rightarrow>
          (if event_task ev = i then [bworld b] else [])
          @ views E file_paths opts evs b' i)"

section \<open>\<open>get_statistics\<close>\<close>

text \<open>Python's \<open>/\<close> on two integers: it raises when the divisor is 0.\<close>

definition py_truediv :: "nat \<Rightarrow> nat \<Rightarrow> exn + rat" where
  "py_truediv a b =
     (if b = 0 then Inl (Exn ZeroDivisionError ''division by zero'')
      else Inr (of_nat a / of_nat b))"

definition get_statistics :: "world \<Rightarrow> exn + Statistics" where
  "get_statistics w =
     (case py_truediv (successful (stats w)) (max (total_processed (stats w)) 1) of
        Inl e \<Rightarrow> Inl e
      | Inr s \<Rightarrow>
          (case py_truediv (cached (stats w)) (max (total_processed (stats w)) 1) of
             Inl e \<Rightarrow> Inl e
           | Inr c \<Rightarrow>
               Inr (Stats.extend (stats w)
                      (Statistics.fields (s * 100) (c * 100)))))"

section \<open>Properties of results and of the cache\<close>

text \<open>The extracted text of a result, whichever shape its \<open>ocr_result\<close> has.\<close>

definition extracted_text :: "ProcessingResult \<Rightarrow> pyval" where
  "extracted_text r =
     (case ocr_result r of
        Inl x \<Rightarrow> PStr (text x)
      | Inr (PDict kvs) \<Rightarrow> (case map_of kvs ''text'' of None \<Rightarrow> PNone | Some v \<Rightarrow> v)
      | Inr _ \<Rightarrow> PNone)"

text \<open>
  The invariant of a result: a failed one has an empty text and an error message, a
  completed or cached one has no error message.
\<close>

definition result_invariant :: "ProcessingResult \<Rightarrow> bool" where
  "result_invariant r =
     ((status r = FAILED \<longrightarrow> extracted_text r = PStr [] \<and> error_message r \<noteq> PNone)
      \<and> (status r = COMPLETED \<or> status r = CACHED \<longrightarrow> error_message r = PNone))"

text \<open>
  No entry of the cache directory that loads as a result carries an error message: the
  state of a cache directory that holds stored results of successful extractions only.
\<close>

definition cache_entries_clean :: "world \<Rightarrow> bool" where
  "cache_entries_clean w =
     (\<forall>name v r. cache_dir w name = Some (JsonText v)
        \<longrightarrow> cached_ProcessingResult v = Inr r \<longrightarrow> error_message r = PNone)"

text \<open>
  A document that is in the cache directory of \<open>w\<close>, or that carries no error message
  when it loads as a result.
\<close>

definition entry_known :: "world \<Rightarrow> pyval \<Rightarrow> bool" where
  "entry_known w v =
     ((\<exists>name. cache_dir w name = Some (JsonText v))
      \<or> (\<forall>r. cached_ProcessingResult v = Inr r \<longrightarrow> error_message r = PNone))"

text \<open>
  The invariant of a result as the code keeps it, relative to the world \<open>w\<close> a call or a
  batch started in: a failed result has an empty text and an error message, a completed
  one has no error message, and a cached one has no error message unless it was loaded
  from a document in the cache directory of \<open>w\<close>, whose error message it then carries.
\<close>

definition result_sound :: "world \<Rightarrow> ProcessingResult \<Rightarrow> bool" where
  "result_sound w r =
     ((status r = FAILED \<longrightarrow> extracted_text r = PStr [] \<and> error_message r \<noteq> PNone)
      \<and> (status r = COMPLETED \<longrightarrow> error_message r = PNone)
      \<and> (status r = CACHED \<longrightarrow>
           error_message r = PNone
           \<or> (\<exists>name v. cache_dir w name = Some (JsonText v)
                 \<and> cached_ProcessingResult v = Inr r)))"

text \<open>The documents in the cache directory of \<open>w'\<close> are known to \<open>w\<close>.\<close>

definition cache_within :: "world \<Rightarrow> world \<Rightarrow> bool" where
  "cache_within w w' = (\<forall>name v. cache_dir w' name = Some (JsonText v) \<longrightarrow> entry_known w v)"

text \<open>The results and file contents a suspended pipeline holds are sound as well.\<close>

fun pstate_sound :: "world \<Rightarrow> pstate \<Rightarrow> bool" where
  "pstate_sound w (CacheRead _ content) =
     (case content of JsonText v \<Rightarrow> entry_known w v | Malformed _ \<Rightarrow> True)"
| "pstate_sound w (CacheClose _ outcome) =
     (case outcome of Inr r \<Rightarrow> status r = CACHED \<and> result_sound w r | Inl _ \<Rightarrow> True)"
| "pstate_sound w (StoreOpen _ r) = (status r = COMPLETED \<and> error_message r = PNone)"
| "pstate_sound w (StoreWrite r) = (status r = COMPLETED \<and> error_message r = PNone)"
| "pstate_sound w (StoreClose r _) = (status r = COMPLETED \<and> error_message r = PNone)"
| "pstate_sound w _ = True"

fun progress_sound :: "world \<Rightarrow> progress \<Rightarrow> bool" where
  "progress_sound w (Suspended ps) = pstate_sound w ps"
| "progress_sound w (Returned outcome) =
     (case outcome of Inr r \<Rightarrow> result_sound w r | Inl _ \<Rightarrow> True)"

fun task_sound :: "world \<Rightarrow> task \<Rightarrow> bool" where
  "task_sound w (Running ps) = pstate_sound w ps"
| "task_sound w (Done outcome) =
     (case outcome of Inr r \<Rightarrow> result_sound w r | Inl _ \<Rightarrow> True)"
| "task_sound w Waiting = True"

text \<open>Two worlds that differ at most in the cache directory and in the log.\<close>

definition agree :: "world \<Rightarrow> world \<Rightarrow> bool" where
  "agree w1 w2 =
     (files w1 = files w2 \<and> stats w1 = stats w2 \<and> api_calls w1 = api_calls w2
      \<and> slept w1 = slept w2)"

text \<open>
  What holds of a batch all along a run: one task per path, and the slots of the
  semaphore that are free and those that are held add up to its initial value.
\<close>

definition batch_inv :: "string list \<Rightarrow> nat \<Rightarrow> batch \<Rightarrow> bool" where
  "batch_inv file_paths n b =
     (length (tasks b) = length file_paths \<and> sem_value b + in_flight b = n)"

text \<open>A bound on the events a task, and a batch, still has to go through.\<close>

fun task_fuel :: "task \<Rightarrow> nat" where
  "task_fuel Waiting = 12"
| "task_fuel (Running ps) = pstate_fuel ps"
| "task_fuel (Done _) = 0"

definition remaining :: "batch \<Rightarrow> nat" where
  "remaining b = sum_list (map task_fuel (tasks b))"

section \<open>Example environments and worlds\<close>

definition example_guess_type :: "string \<Rightarrow> string option" where
  "example_guess_type p =
     (let s = lower (path_suffix p) in
      if s = ''.pdf'' then Some ''application/pdf''
      else if s = ''.png'' then Some ''image/png''
      else if s = ''.jpg'' \<or> s = ''.jpeg'' then Some ''image/jpeg''
      else if s = ''.docx''
      then Some ''application/vnd.openxmlformats-officedocument.wordprocessingml.document''
      else None)"

text \<open>An extraction service that always answers, and one that always fails.\<close>

definition example_env :: env where
  "example_env =
     \<lparr>guess_type = example_guess_type,
      sha256_hexdigest = (\<lambda>b. ''sha256:'' @ b),
      chat_complete = (\<lambda>n req. Inr [''Extracted text from document.'']),
      fitz_page_count = (\<lambda>b. Inr 1),
      detect = (\<lambda>t. Inr ''en''),
      now_isoformat = ''2024-01-01T00:00:00'',
      elapsed_seconds = 1\<rparr>"

definition failing_env :: env where
  "failing_env =
     example_env\<lparr>chat_complete :=
                   (\<lambda>n req. Inl (Exn MistralException ''service unavailable''))\<rparr>"

definition example_world :: world where
  "example_world =
     \<lparr>files = [''docs/report.pdf'' \<mapsto> RegularFile 16 ''PDF mock content'',
               ''docs/scan.png'' \<mapsto> RegularFile 3 ''PNG'',
               ''docs/large.pdf'' \<mapsto> RegularFile (60 * 1024 * 1024) ''x'',
               ''docs/letter.docx'' \<mapsto> RegularFile 4 ''DOCX'',
               ''docs/folder.pdf'' \<mapsto> Directory 4096],
      cache_dir = Map.empty,
      stats = \<lparr>total_processed = 0, successful = 0, failed = 0, cached = 0\<rparr>,
      log = [],
      api_calls = 0,
      slept = []\<rparr>"

text \<open>
  The same world with a stored result for the content of \<open>docs/report.pdf\<close> in the cache
  directory, and with a cache file for that content that is not JSON.
\<close>

definition stored_entry :: pyval where
  "stored_entry =
     PDict [(''metadata'', PDict [(''file_name'', PStr ''old-name.pdf'')]),
            (''ocr_result'', PDict [(''text'', PStr ''Stored text'')]),
            (''status'', PStr ''completed''),
            (''error_message'', PNone),
            (''processing_options'', PDict [])]"

definition warm_world :: world where
  "warm_world =
     example_world\<lparr>cache_dir :=
       [''sha256:PDF mock content.json'' \<mapsto> JsonText stored_entry]\<rparr>"

definition corrupt_world :: world where
  "corrupt_world =
     example_world\<lparr>cache_dir :=
       [''sha256:PDF mock content.json'' \<mapsto> Malformed ''{ metadata'']\<rparr>"

text \<open>
  The same world with a stored document for the content of \<open>docs/report.pdf\<close> that
  carries an error message.
\<close>

definition poisoned_entry :: pyval where
  "poisoned_entry =
     PDict [(''metadata'', PDict [(''file_name'', PStr ''old-name.pdf'')]),
            (''ocr_result'', PDict [(''text'', PStr ''Stored text'')]),
            (''status'', PStr ''failed''),
            (''error_message'', PStr ''boom''),
            (''processing_options'', PDict [])]"

definition poisoned_world :: world where
  "poisoned_world =
     example_world\<lparr>cache_dir :=
       [''sha256:PDF mock content.json'' \<mapsto> JsonText poisoned_entry]\<rparr>"

text \<open>An extraction service that fails on its first three calls and answers from then on.\<close>

definition flaky_env :: env where
  "flaky_env =
     example_env\<lparr>chat_complete :=
                   (\<lambda>n req. if n < 3 then Inl (Exn MistralException ''service unavailable'')
                            else Inr [''Extracted text from document.''])\<rparr>"

section \<open>Auxiliary facts\<close>

declare api_attempt.simps [simp del]

lemmas example_defs =
  example_env_def failing_env_def example_world_def example_guess_type_def
  path_suffix_def path_name_def lower_def lower_char_def

lemma supported_values_iff:
  "in_supported_values m \<longleftrightarrow> m \<in> Some ` {''application/pdf'', ''image/png'', ''image/jpeg''}"
  by (cases m) (auto simp: in_supported_values_def SUPPORTED_FORMATS_def)

lemma upt_shift: "[Suc 0..<Suc (Suc d)] = Suc 0 # map Suc [Suc 0..<Suc d]"
  by (simp add: upt_conv_Cons map_Suc_upt del: upt_Suc)

lemma api_attempt_calls_slept:
  "attempt \<le> 2 \<Longrightarrow> api_attempt E req attempt w = (r, w') \<Longrightarrow>
     api_calls w < api_calls w' \<and> api_calls w' \<le> api_calls w + (3 - attempt)
     \<and> slept w' = slept w @ map (\<lambda>n. API_RETRY_DELAY * (attempt + n)) [1..<api_calls w' - api_calls w]
     \<and> files w' = files w \<and> cache_dir w' = cache_dir w \<and> stats w' = stats w"
proof (induction E req attempt w arbitrary: r w' rule: api_attempt.induct)
  case (1 E req attempt w)
  let ?w1 = "logger INFO (CallingApi (attempt + 1) API_RETRY_ATTEMPTS) w"
  let ?w2 = "?w1\<lparr>api_calls := api_calls ?w1 + 1\<rparr>"
  show ?case
  proof (cases "first_choice (chat_complete E (api_calls ?w1) req)")
    case (Inr content)
    with "1.prems" show ?thesis
      by (subst (asm) api_attempt.simps) (auto simp: Let_def logger_def)
  next
    case (Inl e)
    let ?w3 = "logger ERROR (if exn_class e = MistralException
                         then MistralApiError (attempt + 1) e
                         else UnexpectedError (attempt + 1) e) ?w2"
    show ?thesis
    proof (cases "attempt < API_RETRY_ATTEMPTS - 1")
      case True
      let ?w4 = "sleep (API_RETRY_DELAY * (attempt + 1)) ?w3"
      from "1.prems"(2) Inl True have rec: "api_attempt E req (attempt + 1) ?w4 = (r, w')"
        by (subst (asm) api_attempt.simps) (simp add: Let_def)
      from True have le: "attempt + 1 \<le> 2" by (simp add: API_RETRY_ATTEMPTS_def)
      note IH = "1.IH"[OF refl refl refl Inl refl True le rec]
      have c4: "api_calls ?w4 = api_calls w + 1"
        "slept ?w4 = slept w @ [API_RETRY_DELAY * (attempt + 1)]"
        "files ?w4 = files w" "cache_dir ?w4 = cache_dir w" "stats ?w4 = stats w"
        by (simp_all add: sleep_def logger_def)
      from IH c4 have a: "api_calls w + 1 < api_calls w'"
        "api_calls w' \<le> api_calls w + 1 + (3 - (attempt + 1))"
        by auto
      define d where "d = api_calls w' - api_calls w - 2"
      have d: "api_calls w' - api_calls w = Suc (Suc d)"
        "api_calls w' - (api_calls w + 1) = Suc d"
        using a by (simp_all add: d_def)
      from IH c4 d le show ?thesis
        by (auto simp: comp_def upt_shift simp del: upt_Suc)
    next
      case False
      with "1.prems" Inl show ?thesis
        by (subst (asm) api_attempt.simps) (auto simp: Let_def logger_def API_RETRY_ATTEMPTS_def)
    qed
  qed
qed

lemma api_attempt_all_fail:
  assumes "first_choice (chat_complete E (api_calls w) req) = Inl e0"
      and "first_choice (chat_complete E (api_calls w + 1) req) = Inl e1"
      and "first_choice (chat_complete E (api_calls w + 2) req) = Inl e2"
  shows "fst (api_attempt E req 0 w) = Inl e2
         \<and> api_calls (snd (api_attempt E req 0 w)) = api_calls w + 3
         \<and> slept (snd (api_attempt E req 0 w)) = slept w @ [2, 4]"
  using assms
  by (simp add: api_attempt.simps [of E req 0] api_attempt.simps [of E req "Suc 0"]
        api_attempt.simps [of E req "Suc (Suc 0)"] API_RETRY_ATTEMPTS_def API_RETRY_DELAY_def
        Let_def logger_def sleep_def)

text \<open>What each step leaves unchanged.\<close>

lemma logger_frame [simp]:
  "files (logger l m w) = files w" "cache_dir (logger l m w) = cache_dir w"
  "stats (logger l m w) = stats w" "api_calls (logger l m w) = api_calls w"
  "slept (logger l m w) = slept w" "log (logger l m w) = log w @ [(l, m)]"
  by (simp_all add: logger_def)

lemma validate_file_frame:
  "validate_file E p w = (b, w') \<Longrightarrow>
     files w' = files w \<and> cache_dir w' = cache_dir w \<and> stats w' = stats w
     \<and> api_calls w' = api_calls w \<and> slept w' = slept w"
  by (auto simp: validate_file_def Let_def split: option.splits if_splits)

lemma validate_file_files_cong:
  "files w1 = files w2 \<Longrightarrow> fst (validate_file E p w1) = fst (validate_file E p w2)"
  by (simp add: validate_file_def Let_def split: option.splits)

lemma validate_file_True:
  "validate_file E p w = (True, w') \<Longrightarrow> w' = w \<and> files w p \<noteq> None"
  by (auto simp: validate_file_def Let_def split: option.splits if_splits)

lemma bump_frame [simp]:
  "files (bump_cached w) = files w" "cache_dir (bump_cached w) = cache_dir w"
  "api_calls (bump_cached w) = api_calls w" "slept (bump_cached w) = slept w"
  "log (bump_cached w) = log w"
  "stats (bump_cached w) = (stats w)\<lparr>cached := cached (stats w) + 1\<rparr>"
  "files (bump_successful w) = files w" "cache_dir (bump_successful w) = cache_dir w"
  "api_calls (bump_successful w) = api_calls w" "slept (bump_successful w) = slept w"
  "log (bump_successful w) = log w"
  "stats (bump_successful w) = (stats w)\<lparr>successful := successful (stats w) + 1\<rparr>"
  "files (bump_failed w) = files w" "cache_dir (bump_failed w) = cache_dir w"
  "api_calls (bump_failed w) = api_calls w" "slept (bump_failed w) = slept w"
  "log (bump_failed w) = log w"
  "stats (bump_failed w) = (stats w)\<lparr>failed := failed (stats w) + 1\<rparr>"
  "files (bump_total_processed w) = files w"
  "cache_dir (bump_total_processed w) = cache_dir w"
  "api_calls (bump_total_processed w) = api_calls w"
  "slept (bump_total_processed w) = slept w"
  "log (bump_total_processed w) = log w"
  "stats (bump_total_processed w) =
     (stats w)\<lparr>total_processed := total_processed (stats w) + 1\<rparr>"
  by (simp_all add: bump_cached_def bump_successful_def bump_failed_def
        bump_total_processed_def)

lemma cached_ProcessingResult_status:
  "cached_ProcessingResult v = Inr r \<Longrightarrow> status r = CACHED"
  by (auto simp: cached_ProcessingResult_def ProcessingResult_init_def
           split: pyval.splits if_splits option.splits)

lemma load_cached_cases:
  "load_cached p cp w = (hit, w') \<Longrightarrow>
     files w' = files w \<and> cache_dir w' = cache_dir w \<and> api_calls w' = api_calls w
     \<and> slept w' = slept w
     \<and> (case hit of
           None \<Rightarrow> stats w' = stats w
         | Some r \<Rightarrow>
             status r = CACHED
             \<and> stats w' = (stats w)\<lparr>cached := cached (stats w) + 1\<rparr>
             \<and> (\<exists>v. cache_dir w cp = Some (JsonText v) \<and> cached_ProcessingResult v = Inr r))"
  by (auto simp: load_cached_def Let_def json_loads_def cached_ProcessingResult_status
           split: option.splits sum.splits file_text.splits)

lemma store_cached_frame:
  "files (store_cached p cp r w) = files w \<and> stats (store_cached p cp r w) = stats w
   \<and> api_calls (store_cached p cp r w) = api_calls w
   \<and> slept (store_cached p cp r w) = slept w"
  by (simp add: store_cached_def Let_def split: sum.splits)

lemma extract_pdf_info_frame:
  "extract_pdf_info E p w = (i, w') \<Longrightarrow>
     files w' = files w \<and> cache_dir w' = cache_dir w \<and> stats w' = stats w
     \<and> api_calls w' = api_calls w \<and> slept w' = slept w"
  by (auto simp: extract_pdf_info_def split: sum.splits)

lemma call_mistral_ocr_api_frame:
  "call_mistral_ocr_api E p opts w = (r, w') \<Longrightarrow>
     files w' = files w \<and> cache_dir w' = cache_dir w \<and> stats w' = stats w
     \<and> api_calls w \<le> api_calls w'
     \<and> (open_rb w p \<noteq> Inr b \<or> api_calls w < api_calls w')"
proof (cases "open_rb w p")
  case (Inl e)
  assume "call_mistral_ocr_api E p opts w = (r, w')"
  with Inl show ?thesis by (auto simp: call_mistral_ocr_api_def)
next
  case (Inr file_data)
  assume "call_mistral_ocr_api E p opts w = (r, w')"
  with Inr have "api_attempt E (ocr_request E p opts file_data) 0 w = (r, w')"
    by (simp add: call_mistral_ocr_api_def)
  from api_attempt_calls_slept [OF _ this] show ?thesis by simp
qed

lemma cached_of_asdict:
  "cached_ProcessingResult (asdict r) = Inr r' \<Longrightarrow> error_message r' = error_message r"
  by (auto simp: cached_ProcessingResult_def asdict_def ProcessingResult_init_def
        ProcessingResult_fields_def split: if_splits)

lemma store_cached_clean:
  "cache_entries_clean w \<Longrightarrow> error_message r = PNone \<Longrightarrow>
     cache_entries_clean (store_cached p cp r w)"
  unfolding cache_entries_clean_def store_cached_def Let_def json_dumps_def
  by (auto dest: cached_of_asdict split: if_splits)

lemma cache_entries_clean_cong:
  "cache_dir w' = cache_dir w \<Longrightarrow> cache_entries_clean w' = cache_entries_clean w"
  by (simp add: cache_entries_clean_def)

lemma build_metadata_frame:
  "build_metadata E p h node w = (md, w') \<Longrightarrow>
     files w' = files w \<and> cache_dir w' = cache_dir w \<and> stats w' = stats w
     \<and> api_calls w' = api_calls w \<and> slept w' = slept w"
  using extract_pdf_info_frame [of E p w]
  by (auto simp: build_metadata_def Let_def split: if_splits prod.splits)

lemma extraction_succeeded_cases:
  "extraction_succeeded E p opts uc cp md txt w = (r, w') \<Longrightarrow>
     files w' = files w \<and> api_calls w' = api_calls w \<and> slept w' = slept w
     \<and> status r = COMPLETED \<and> error_message r = PNone
     \<and> stats w' = (stats w)\<lparr>successful := successful (stats w) + 1,
                             total_processed := total_processed (stats w) + 1\<rparr>
     \<and> (cache_entries_clean w \<longrightarrow> cache_entries_clean w')"
proof -
  assume a: "extraction_succeeded E p opts uc cp md txt w = (r, w')"
  define result where "result = ProcessingResult_init
        (Inl (md\<lparr>language := Some (detect_language E txt),
                   processing_time := Some (elapsed_seconds E)\<rparr>))
        (Inl ((OCRResult_init txt)\<lparr>confidence := Some (95 / 100),
                   ocr_language := Some (detect_language E txt)\<rparr>))
        COMPLETED PNone (options_or_empty opts)"
  define w3 where "w3 = (if uc then store_cached p cp result w else w)"
  have r: "r = result"
    and w': "w' = logger INFO (SuccessfullyProcessed p (elapsed_seconds E))
                    (bump_total_processed (bump_successful w3))"
    using a unfolding extraction_succeeded_def Let_def result_def w3_def by auto
  have e: "status result = COMPLETED" "error_message result = PNone"
    by (simp_all add: result_def ProcessingResult_init_def)
  have f3: "files w3 = files w" "stats w3 = stats w" "api_calls w3 = api_calls w"
    "slept w3 = slept w"
    using store_cached_frame [of p cp result w] by (simp_all add: w3_def)
  have c3: "cache_entries_clean w \<longrightarrow> cache_entries_clean w3"
    using store_cached_clean [of w result p cp] e by (simp add: w3_def)
  have c': "cache_entries_clean w' = cache_entries_clean w3"
    by (rule cache_entries_clean_cong) (simp add: w')
  show ?thesis
    using e f3 c3 c' by (simp add: r w')
qed

lemma extraction_failed_cases:
  "extraction_failed p opts md e w = (r, w') \<Longrightarrow>
     files w' = files w \<and> api_calls w' = api_calls w \<and> slept w' = slept w
     \<and> cache_dir w' = cache_dir w
     \<and> status r = FAILED \<and> extracted_text r = PStr [] \<and> error_message r = PStr (exn_str e)
     \<and> stats w' = (stats w)\<lparr>failed := failed (stats w) + 1,
                             total_processed := total_processed (stats w) + 1\<rparr>"
  by (auto simp: extraction_failed_def Let_def ProcessingResult_init_def extracted_text_def
        OCRResult_init_def)

lemma extract_document_cases:
  assumes "extract_document E p opts uc h cp w = (res, w')"
  shows "files w' = files w \<and> api_calls w \<le> api_calls w'
     \<and> (cache_entries_clean w \<longrightarrow> cache_entries_clean w')
     \<and> (case res of
           Inl e \<Rightarrow> w' = w \<and> files w p = None
         | Inr r \<Rightarrow>
             (status r = COMPLETED \<and> error_message r = PNone
              \<and> stats w' = (stats w)\<lparr>successful := successful (stats w) + 1,
                                      total_processed := total_processed (stats w) + 1\<rparr>)
             \<or> (status r = FAILED \<and> extracted_text r = PStr []
                 \<and> error_message r \<noteq> PNone
                 \<and> stats w' = (stats w)\<lparr>failed := failed (stats w) + 1,
                                         total_processed := total_processed (stats w) + 1\<rparr>))"
proof (cases "files w p")
  case None
  with assms show ?thesis by (auto simp: extract_document_def)
next
  case (Some node)
  obtain md1 w1 where pre: "build_metadata E p h node w = (md1, w1)"
    by (cases "build_metadata E p h node w")
  note f1 = build_metadata_frame [OF pre]
  have c1: "cache_entries_clean w1 = cache_entries_clean w"
    by (rule cache_entries_clean_cong) (simp add: f1)
  obtain r2 w2 where api: "call_mistral_ocr_api E p opts w1 = (r2, w2)"
    by (cases "call_mistral_ocr_api E p opts w1")
  note f2 = call_mistral_ocr_api_frame [OF api]
  have c2: "cache_entries_clean w2 = cache_entries_clean w"
    using c1 cache_entries_clean_cong [of w2 w1] f2 by simp
  show ?thesis
  proof (cases r2)
    case (Inl e)
    obtain r3 w3 where fl: "extraction_failed p opts md1 e w2 = (r3, w3)"
      by (cases "extraction_failed p opts md1 e w2")
    have out: "res = Inr r3" "w' = w3"
      using assms Some pre api Inl fl by (simp_all add: extract_document_def)
    note f3 = extraction_failed_cases [OF fl]
    have c3: "cache_entries_clean w3 = cache_entries_clean w"
      using c2 cache_entries_clean_cong [of w3 w2] f3 by simp
    show ?thesis
      using f1 f2 f3 c3 by (simp add: out)
  next
    case (Inr content)
    obtain r3 w3 where sc: "extraction_succeeded E p opts uc cp md1 content w2 = (r3, w3)"
      by (cases "extraction_succeeded E p opts uc cp md1 content w2")
    have out: "res = Inr r3" "w' = w3"
      using assms Some pre api Inr sc by (simp_all add: extract_document_def)
    note f3 = extraction_succeeded_cases [OF sc]
    show ?thesis
      using f1 f2 f3 c2 by (simp add: out)
  qed
qed

lemma process_file_unfold:
  "process_file E p opts uc w =
     (let w1 = logger INFO (ProcessingFile p) w in
      if \<not> fst (validate_file E p w)
      then (Inr (ProcessingResult_init
                   (Inl (DocumentMetadata_init E (path_name p) 0 ''unknown'' []))
                   (Inl (OCRResult_init [])) FAILED
                   (PStr ''File validation failed'') PNone),
            snd (validate_file E p w1))
      else
        (case calculate_file_hash E p w of
           Inl e \<Rightarrow> (Inl e, w1)
         | Inr h \<Rightarrow>
             (case (if uc then load_cached p (get_cache_path h) w1 else (None, w1)) of
                (Some result, w3) \<Rightarrow> (Inr result, w3)
              | (None, w3) \<Rightarrow> extract_document E p opts uc h (get_cache_path h) w3)))"
proof -
  let ?w1 = "logger INFO (ProcessingFile p) w"
  obtain b w2 where v: "validate_file E p ?w1 = (b, w2)"
    by (cases "validate_file E p ?w1")
  have b: "b = fst (validate_file E p w)"
    using validate_file_files_cong [of ?w1 w E p] v by simp
  have h: "calculate_file_hash E p ?w1 = calculate_file_hash E p w"
    by (simp add: calculate_file_hash_def open_rb_def)
  show ?thesis
  proof (cases b)
    case True
    with v have "w2 = ?w1" using validate_file_True [of E p ?w1 w2] by simp
    with True v b h show ?thesis
      by (simp add: process_file_def Let_def split: sum.splits prod.splits option.splits)
  next
    case False
    with v b show ?thesis
      by (simp add: process_file_def Let_def)
  qed
qed

lemma process_file_cases:
  assumes "process_file E p opts uc w = (res, w')"
  shows "files w' = files w \<and> api_calls w \<le> api_calls w'
     \<and> (cache_entries_clean w \<longrightarrow> cache_entries_clean w')
     \<and> (case res of
           Inl e \<Rightarrow> stats w' = stats w \<and> api_calls w' = api_calls w
         | Inr r \<Rightarrow>
             (\<not> fst (validate_file E p w) \<and> status r = FAILED
              \<and> extracted_text r = PStr []
              \<and> error_message r = PStr ''File validation failed''
              \<and> stats w' = stats w \<and> api_calls w' = api_calls w)
             \<or> (fst (validate_file E p w) \<and> uc \<and> status r = CACHED
                 \<and> stats w' = (stats w)\<lparr>cached := cached (stats w) + 1\<rparr>
                 \<and> api_calls w' = api_calls w
                 \<and> (\<exists>h v. calculate_file_hash E p w = Inr h
                        \<and> cache_dir w (get_cache_path h) = Some (JsonText v)
                        \<and> cached_ProcessingResult v = Inr r))
             \<or> (fst (validate_file E p w) \<and> status r = COMPLETED
                 \<and> error_message r = PNone
                 \<and> stats w' = (stats w)\<lparr>successful := successful (stats w) + 1,
                                         total_processed := total_processed (stats w) + 1\<rparr>)
             \<or> (fst (validate_file E p w) \<and> status r = FAILED
                 \<and> extracted_text r = PStr [] \<and> error_message r \<noteq> PNone
                 \<and> stats w' = (stats w)\<lparr>failed := failed (stats w) + 1,
                                         total_processed := total_processed (stats w) + 1\<rparr>))"
proof -
  let ?w1 = "logger INFO (ProcessingFile p) w"
  have c1: "cache_entries_clean ?w1 = cache_entries_clean w"
    by (rule cache_entries_clean_cong) simp
  show ?thesis
  proof (cases "fst (validate_file E p w)")
    case False
    obtain b w2 where v: "validate_file E p ?w1 = (b, w2)"
      by (cases "validate_file E p ?w1")
    note f = validate_file_frame [OF v]
    have c2: "cache_entries_clean w2 = cache_entries_clean w"
      by (rule cache_entries_clean_cong) (simp add: f)
    from assms False v have "res = Inr (ProcessingResult_init
                   (Inl (DocumentMetadata_init E (path_name p) 0 ''unknown'' []))
                   (Inl (OCRResult_init [])) FAILED
                   (PStr ''File validation failed'') PNone)" "w' = w2"
      by (simp_all add: process_file_unfold Let_def)
    with False f c2 show ?thesis
      by (simp add: ProcessingResult_init_def extracted_text_def OCRResult_init_def)
  next
    case True
    show ?thesis
    proof (cases "calculate_file_hash E p w")
      case (Inl e)
      with assms True have "res = Inl e" "w' = ?w1"
        by (simp_all add: process_file_unfold Let_def)
      with c1 show ?thesis by simp
    next
      case (Inr h)
      obtain hit w3 where l: "(if uc then load_cached p (get_cache_path h) ?w1 else (None, ?w1))
                                = (hit, w3)"
        by (cases "if uc then load_cached p (get_cache_path h) ?w1 else (None, ?w1)")
      have f3: "files w3 = files w \<and> cache_dir w3 = cache_dir w \<and> api_calls w3 = api_calls w
        \<and> (case hit of
           None \<Rightarrow> stats w3 = stats w
         | Some r \<Rightarrow>
             uc \<and> status r = CACHED
             \<and> stats w3 = (stats w)\<lparr>cached := cached (stats w) + 1\<rparr>
             \<and> (\<exists>v. cache_dir w (get_cache_path h) = Some (JsonText v)
                    \<and> cached_ProcessingResult v = Inr r))"
      proof (cases uc)
        case True
        with l have "load_cached p (get_cache_path h) ?w1 = (hit, w3)" by simp
        from load_cached_cases [OF this] True show ?thesis by (cases hit) simp_all
      next
        case False
        with l show ?thesis by auto
      qed
      have c3: "cache_entries_clean w3 = cache_entries_clean w"
        by (rule cache_entries_clean_cong) (simp add: f3)
      show ?thesis
      proof (cases hit)
        case (Some r)
        with assms True Inr l have "res = Inr r" "w' = w3"
          by (simp_all add: process_file_unfold Let_def)
        with True Inr Some f3 c3 show ?thesis by simp
      next
        case None
        with assms True Inr l
        have x: "extract_document E p opts uc h (get_cache_path h) w3 = (res, w')"
          by (simp add: process_file_unfold Let_def)
        have nn: "files w3 p \<noteq> None"
          using True f3 by (auto simp: validate_file_def split: option.splits)
        from extract_document_cases [OF x] nn None f3 c3 True show ?thesis
          by (cases res) auto
      qed
    qed
  qed
qed

lemma asdict_not_serializable: "\<not> serializable (asdict r)"
  by (simp add: asdict_def)

lemma store_cached_never_stores:
  "store_cached p cp r w =
     logger WARNING
       (FailedToCache
          (Exn TypeError ''Object of type ProcessingStatus is not JSON serializable''))
       (w\<lparr>cache_dir := (cache_dir w)(cp \<mapsto> Malformed [])\<rparr>)"
  by (simp add: store_cached_def json_dumps_def asdict_not_serializable)

lemma load_cached_miss:
  "\<forall>v. cache_dir w cp \<noteq> Some (JsonText v) \<Longrightarrow>
     \<exists>w'. load_cached p cp w = (None, w') \<and> files w' = files w
          \<and> cache_dir w' = cache_dir w \<and> stats w' = stats w
          \<and> api_calls w' = api_calls w \<and> slept w' = slept w"
  by (auto simp: load_cached_def Let_def json_loads_def split: option.splits file_text.splits)

lemma api_attempt_first_success:
  "first_choice (chat_complete E (api_calls w) req) = Inr content \<Longrightarrow>
     api_attempt E req 0 w =
       (Inr content, (logger INFO (CallingApi 1 API_RETRY_ATTEMPTS) w)
                       \<lparr>api_calls := api_calls w + 1\<rparr>)"
  by (simp add: api_attempt.simps [of E req 0] Let_def)

lemma process_file_first_attempt_success:
  assumes v: "fst (validate_file E p w)"
      and h: "calculate_file_hash E p w = Inr h"
      and c: "\<forall>v. cache_dir w (get_cache_path h) \<noteq> Some (JsonText v)"
      and b: "open_rb w p = Inr b"
      and a: "first_choice (chat_complete E (api_calls w) (ocr_request E p opts b)) = Inr content"
  shows "\<exists>r w'. process_file E p opts True w = (Inr r, w') \<and> status r = COMPLETED
           \<and> extracted_text r = PStr content
           \<and> cache_dir w' (get_cache_path h) = Some (Malformed [])
           \<and> api_calls w' = api_calls w + 1 \<and> files w' = files w
           \<and> cached (stats w') = cached (stats w)"
proof -
  let ?w1 = "logger INFO (ProcessingFile p) w"
  let ?cp = "get_cache_path h"
  have "\<forall>v. cache_dir ?w1 ?cp \<noteq> Some (JsonText v)" using c by simp
  from load_cached_miss [OF this, of p]
  obtain w3 where l: "load_cached p ?cp ?w1 = (None, w3)"
    and f3: "files w3 = files w" "cache_dir w3 = cache_dir w" "stats w3 = stats w"
      "api_calls w3 = api_calls w"
    by auto
  have pf: "process_file E p opts True w = extract_document E p opts True h ?cp w3"
    using v h l by (simp add: process_file_unfold Let_def)
  obtain node where n: "files w3 p = Some node"
    using b f3 by (auto simp: open_rb_def split: option.splits)
  obtain md1 w4 where pre: "build_metadata E p h node w3 = (md1, w4)"
    by (cases "build_metadata E p h node w3")
  note f4 = build_metadata_frame [OF pre]
  have "open_rb w4 p = Inr b" using b f3 f4 by (simp add: open_rb_def)
  moreover have "first_choice (chat_complete E (api_calls w4) (ocr_request E p opts b))
                   = Inr content"
    using a f3 f4 by simp
  ultimately obtain w5 where api: "call_mistral_ocr_api E p opts w4 = (Inr content, w5)"
    and f5: "files w5 = files w4" "cache_dir w5 = cache_dir w4" "stats w5 = stats w4"
      "api_calls w5 = api_calls w4 + 1"
    by (simp add: call_mistral_ocr_api_def api_attempt_first_success)
  obtain r w6 where sc: "extraction_succeeded E p opts True ?cp md1 content w5 = (r, w6)"
    by (cases "extraction_succeeded E p opts True ?cp md1 content w5")
  note f6 = extraction_succeeded_cases [OF sc]
  have t: "extracted_text r = PStr content" "cache_dir w6 ?cp = Some (Malformed [])"
    using sc
    by (auto simp: extraction_succeeded_def Let_def store_cached_never_stores
          ProcessingResult_init_def OCRResult_init_def extracted_text_def)
  have "extract_document E p opts True h ?cp w3 = (Inr r, w6)"
    using n pre api sc by (simp add: extract_document_def)
  with pf f3 f4 f5 f6 t show ?thesis by simp
qed

lemma example_report_facts:
  "fst (validate_file example_env ''docs/report.pdf'' w)" 
  "calculate_file_hash example_env ''docs/report.pdf'' w = Inr ''sha256:PDF mock content''"
  "open_rb w ''docs/report.pdf'' = Inr ''PDF mock content''"
  if "files w = files example_world" for w
  using that
  by (simp_all add: validate_file_def calculate_file_hash_def open_rb_def
        in_supported_values_def SUPPORTED_FORMATS_def MAX_FILE_SIZE_def example_defs)

lemma example_env_answers:
  "first_choice (chat_complete example_env n req) = Inr ''Extracted text from document.''"
  by (simp add: example_env_def first_choice_def)

text \<open>The cache directory and the log do not influence the extraction.\<close>

lemma agree_refl [simp]: "agree w w"
  by (simp add: agree_def)

lemma agree_logger [simp]:
  "agree (logger l m w1) w2 = agree w1 w2" "agree w1 (logger l m w2) = agree w1 w2"
  by (simp_all add: agree_def)

lemma api_attempt_agree:
  "agree w1 w2 \<Longrightarrow>
     fst (api_attempt E req attempt w1) = fst (api_attempt E req attempt w2)
     \<and> agree (snd (api_attempt E req attempt w1)) (snd (api_attempt E req attempt w2))"
proof (induction E req attempt w1 arbitrary: w2 rule: api_attempt.induct)
  case (1 E req attempt w1)
  let ?v1 = "logger INFO (CallingApi (attempt + 1) API_RETRY_ATTEMPTS) w1"
  let ?v2 = "logger INFO (CallingApi (attempt + 1) API_RETRY_ATTEMPTS) w2"
  let ?u1 = "?v1\<lparr>api_calls := api_calls ?v1 + 1\<rparr>"
  let ?u2 = "?v2\<lparr>api_calls := api_calls ?v2 + 1\<rparr>"
  have eq: "api_calls ?v1 = api_calls ?v2" using "1.prems" by (simp add: agree_def)
  have u: "agree ?u1 ?u2" using "1.prems" by (simp add: agree_def)
  show ?case
  proof (cases "first_choice (chat_complete E (api_calls ?v1) req)")
    case (Inr content)
    with eq u show ?thesis
      by (simp add: api_attempt.simps [of E req attempt w1]
            api_attempt.simps [of E req attempt w2] Let_def)
  next
    case (Inl e)
    let ?m = "if exn_class e = MistralException
              then MistralApiError (attempt + 1) e
              else UnexpectedError (attempt + 1) e"
    let ?s1 = "sleep (API_RETRY_DELAY * (attempt + 1)) (logger ERROR ?m ?u1)"
    let ?s2 = "sleep (API_RETRY_DELAY * (attempt + 1)) (logger ERROR ?m ?u2)"
    show ?thesis
    proof (cases "attempt < API_RETRY_ATTEMPTS - 1")
      case True
      have s: "agree ?s1 ?s2" using u by (simp add: agree_def sleep_def)
      note IH = "1.IH" [OF refl refl refl Inl refl True s]
      have a1: "api_attempt E req attempt w1 = api_attempt E req (attempt + 1) ?s1"
        using Inl True by (subst api_attempt.simps) (simp add: Let_def)
      have a2: "api_attempt E req attempt w2 = api_attempt E req (attempt + 1) ?s2"
        using Inl True eq by (subst api_attempt.simps) (simp add: Let_def)
      from IH show ?thesis by (simp only: a1 a2)
    next
      case False
      with Inl eq u show ?thesis
        by (simp add: api_attempt.simps [of E req attempt w1]
              api_attempt.simps [of E req attempt w2] Let_def)
    qed
  qed
qed

lemma api_attempt_log:
  "set (log w) \<subseteq> set (log (snd (api_attempt E req attempt w)))"
proof (induction E req attempt w rule: api_attempt.induct)
  case (1 E req attempt w)
  let ?v = "logger INFO (CallingApi (attempt + 1) API_RETRY_ATTEMPTS) w"
  let ?u = "?v\<lparr>api_calls := api_calls ?v + 1\<rparr>"
  show ?case
  proof (cases "first_choice (chat_complete E (api_calls ?v) req)")
    case (Inr content)
    then show ?thesis
      by (simp add: api_attempt.simps [of E req attempt w] Let_def) auto
  next
    case (Inl e)
    let ?m = "if exn_class e = MistralException
              then MistralApiError (attempt + 1) e
              else UnexpectedError (attempt + 1) e"
    let ?s = "sleep (API_RETRY_DELAY * (attempt + 1)) (logger ERROR ?m ?u)"
    show ?thesis
    proof (cases "attempt < API_RETRY_ATTEMPTS - 1")
      case True
      note IH = "1.IH" [OF refl refl refl Inl refl True]
      have a: "api_attempt E req attempt w = api_attempt E req (attempt + 1) ?s"
        using Inl True by (subst api_attempt.simps) (simp add: Let_def)
      have "set (log w) \<subseteq> set (log ?s)" by (auto simp: sleep_def)
      with IH show ?thesis unfolding a by blast
    next
      case False
      with Inl show ?thesis
        by (simp add: api_attempt.simps [of E req attempt w] Let_def) auto
    qed
  qed
qed

lemma open_rb_agree: "agree w1 w2 \<Longrightarrow> open_rb w1 p = open_rb w2 p"
  by (simp add: agree_def open_rb_def)

lemma call_mistral_ocr_api_agree:
  "agree w1 w2 \<Longrightarrow>
     fst (call_mistral_ocr_api E p opts w1) = fst (call_mistral_ocr_api E p opts w2)
     \<and> agree (snd (call_mistral_ocr_api E p opts w1)) (snd (call_mistral_ocr_api E p opts w2))"
  using api_attempt_agree [of w1 w2] open_rb_agree [of w1 w2 p]
  by (cases "open_rb w2 p") (simp_all add: call_mistral_ocr_api_def)

lemma call_mistral_ocr_api_log:
  "set (log w) \<subseteq> set (log (snd (call_mistral_ocr_api E p opts w)))"
  using api_attempt_log [of w]
  by (cases "open_rb w p") (simp_all add: call_mistral_ocr_api_def)

lemma build_metadata_agree:
  "agree w1 w2 \<Longrightarrow>
     fst (build_metadata E p h node w1) = fst (build_metadata E p h node w2)
     \<and> agree (snd (build_metadata E p h node w1)) (snd (build_metadata E p h node w2))"
  using open_rb_agree [of w1 w2 p]
  by (simp add: build_metadata_def extract_pdf_info_def Let_def split: sum.splits)

lemma build_metadata_log:
  "set (log w) \<subseteq> set (log (snd (build_metadata E p h node w)))"
  by (auto simp: build_metadata_def extract_pdf_info_def Let_def split: sum.splits)

lemma store_cached_agree:
  "agree w1 w2 \<Longrightarrow> agree (store_cached p cp r w1) (store_cached p cp r w2)"
  using store_cached_frame [of p cp r w1] store_cached_frame [of p cp r w2]
  by (simp add: agree_def)

lemma store_cached_log: "set (log w) \<subseteq> set (log (store_cached p cp r w))"
  by (auto simp: store_cached_def Let_def split: sum.splits)

lemma extraction_succeeded_agree:
  "agree w1 w2 \<Longrightarrow>
     fst (extraction_succeeded E p opts uc cp md content w1)
       = fst (extraction_succeeded E p opts uc cp md content w2)
     \<and> agree (snd (extraction_succeeded E p opts uc cp md content w1))
             (snd (extraction_succeeded E p opts uc cp md content w2))"
  using store_cached_agree [of w1 w2]
  by (simp add: extraction_succeeded_def Let_def) (simp add: agree_def)

lemma extraction_succeeded_log:
  "set (log w) \<subseteq> set (log (snd (extraction_succeeded E p opts uc cp md content w)))"
  using store_cached_log [of w]
  by (auto simp: extraction_succeeded_def Let_def)

lemma extraction_failed_agree:
  "agree w1 w2 \<Longrightarrow>
     fst (extraction_failed p opts md e w1) = fst (extraction_failed p opts md e w2)
     \<and> agree (snd (extraction_failed p opts md e w1)) (snd (extraction_failed p opts md e w2))"
  by (simp add: extraction_failed_def Let_def agree_def)

lemma extraction_failed_log:
  "set (log w) \<subseteq> set (log (snd (extraction_failed p opts md e w)))"
  by (auto simp: extraction_failed_def Let_def)

lemma extract_document_unfold:
  "files w p = Some node \<Longrightarrow>
   extract_document E p opts uc h cp w =
     (let bm = build_metadata E p h node w;
          api = call_mistral_ocr_api E p opts (snd bm)
      in case fst api of
           Inr content \<Rightarrow>
             (Inr (fst (extraction_succeeded E p opts uc cp (fst bm) content (snd api))),
              snd (extraction_succeeded E p opts uc cp (fst bm) content (snd api)))
         | Inl e \<Rightarrow>
             (Inr (fst (extraction_failed p opts (fst bm) e (snd api))),
              snd (extraction_failed p opts (fst bm) e (snd api))))"
  by (simp add: extract_document_def Let_def split: prod.splits sum.splits)

lemma extract_document_agree:
  assumes "agree w1 w2"
  shows "fst (extract_document E p opts uc h cp w1) = fst (extract_document E p opts uc h cp w2)
     \<and> agree (snd (extract_document E p opts uc h cp w1))
             (snd (extract_document E p opts uc h cp w2))"
proof (cases "files w2 p")
  case None
  with assms show ?thesis by (simp add: extract_document_def agree_def)
next
  case (Some node)
  with assms have s1: "files w1 p = Some node" by (simp add: agree_def)
  note bm = build_metadata_agree [OF assms, of E p h node]
  note api = call_mistral_ocr_api_agree [OF conjunct2 [OF bm], of E p opts]
  show ?thesis
  proof (cases "fst (call_mistral_ocr_api E p opts (snd (build_metadata E p h node w2)))")
    case (Inl e)
    with bm api extraction_failed_agree [OF conjunct2 [OF api]] show ?thesis
      by (simp add: extract_document_unfold [OF s1] extract_document_unfold [OF Some] Let_def)
  next
    case (Inr content)
    with bm api extraction_succeeded_agree [OF conjunct2 [OF api]] show ?thesis
      by (simp add: extract_document_unfold [OF s1] extract_document_unfold [OF Some] Let_def)
  qed
qed

lemma extract_document_log:
  "set (log w) \<subseteq> set (log (snd (extract_document E p opts uc h cp w)))"
proof (cases "files w p")
  case None
  then show ?thesis by (simp add: extract_document_def)
next
  case (Some node)
  let ?bm = "build_metadata E p h node w"
  let ?api = "call_mistral_ocr_api E p opts (snd ?bm)"
  have 1: "set (log w) \<subseteq> set (log (snd ?api))"
    using build_metadata_log [of w E p h node] call_mistral_ocr_api_log [of "snd ?bm" E p opts]
    by blast
  show ?thesis
  proof (cases "fst ?api")
    case (Inl e)
    with 1 extraction_failed_log [of "snd ?api" p opts "fst ?bm" e] show ?thesis
      by (auto simp: extract_document_unfold [OF Some] Let_def)
  next
    case (Inr content)
    with 1 extraction_succeeded_log [of "snd ?api" E p opts uc cp "fst ?bm" content]
    show ?thesis
      by (auto simp: extract_document_unfold [OF Some] Let_def)
  qed
qed

lemma extract_document_calls:
  assumes "open_rb w p = Inr b"
  shows "api_calls w < api_calls (snd (extract_document E p opts uc h cp w))"
proof -
  obtain node where n: "files w p = Some node"
    using assms by (auto simp: open_rb_def split: option.splits)
  let ?bm = "build_metadata E p h node w"
  let ?api = "call_mistral_ocr_api E p opts (snd ?bm)"
  note f1 = build_metadata_frame [OF prod.collapse [symmetric], of E p h node w]
  have "open_rb (snd ?bm) p = Inr b" using assms f1 by (simp add: open_rb_def)
  with call_mistral_ocr_api_frame [OF prod.collapse [symmetric], of E p opts "snd ?bm" b] f1
  have 1: "api_calls w < api_calls (snd ?api)" by simp
  show ?thesis
  proof (cases "fst ?api")
    case (Inl e)
    with 1 extraction_failed_cases [OF prod.collapse [symmetric], of p opts "fst ?bm" e "snd ?api"]
    show ?thesis
      by (simp add: extract_document_unfold [OF n] Let_def)
  next
    case (Inr content)
    with 1 extraction_succeeded_cases
             [OF prod.collapse [symmetric], of E p opts uc cp "fst ?bm" content "snd ?api"]
    show ?thesis
      by (simp add: extract_document_unfold [OF n] Let_def)
  qed
qed

text \<open>The runs of a batch.\<close>

lemma filter_update_count:
  "i < length xs \<Longrightarrow>
     length (filter P (xs[i := y])) + (if P (xs ! i) then 1 else 0)
       = length (filter P xs) + (if P y then 1 else 0)"
proof (induction xs arbitrary: i)
  case Nil
  then show ?case by simp
next
  case (Cons x xs)
  then show ?case by (cases i) auto
qed

lemma run_append:
  "run E fps opts (s1 @ s2) b =
     (case run E fps opts s1 b of None \<Rightarrow> None | Some b' \<Rightarrow> run E fps opts s2 b')"
  by (induction s1 arbitrary: b) (auto split: option.splits)

lemma those_map_Some:
  "those (map f xs) = Some ys \<Longrightarrow>
     length ys = length xs \<and> (\<forall>i<length xs. f (xs ! i) = Some (ys ! i))"
proof (induction xs arbitrary: ys)
  case Nil
  then show ?case by simp
next
  case (Cons x xs)
  then show ?case
    by (auto split: option.splits simp: nth_Cons split: nat.splits)
qed

lemma those_map_defined:
  "\<forall>x\<in>set xs. f x \<noteq> None \<Longrightarrow> those (map f xs) \<noteq> None"
  by (induction xs) (auto split: option.splits)

lemma task_outcome_Some: "task_outcome t = Some r \<longleftrightarrow> t = Done r"
  by (cases t) auto

lemma gather_Some:
  "gather b = Some rs \<Longrightarrow>
     length rs = length (tasks b) \<and> (\<forall>i<length (tasks b). tasks b ! i = Done (rs ! i))"
  using those_map_Some [of task_outcome "tasks b" rs]
  by (simp add: gather_def task_outcome_Some)

lemma handle_results_nth:
  "fst (handle_results E fps i rs w) =
     map (\<lambda>j. case rs ! j of Inr r \<Rightarrow> r | Inl e \<Rightarrow> exception_result E (fps ! (i + j)) e)
       [0..<length rs]"
proof (induction rs arbitrary: i w)
  case Nil
  then show ?case by simp
next
  case (Cons x rs)
  have "[0..<length (x # rs)] = 0 # map Suc [0..<length rs]"
    by (simp add: upt_conv_Cons map_Suc_upt del: upt_Suc)
  then show ?case
    using Cons.IH [of "i + 1"]
    by (cases x) (auto simp: split_beta Let_def comp_def simp del: upt_Suc split: sum.splits)
qed

lemma handle_results_frame:
  "cache_dir (snd (handle_results E fps i rs w)) = cache_dir w
   \<and> stats (snd (handle_results E fps i rs w)) = stats w
   \<and> files (snd (handle_results E fps i rs w)) = files w
   \<and> api_calls (snd (handle_results E fps i rs w)) = api_calls w"
proof (induction rs arbitrary: i w)
  case Nil
  then show ?case by simp
next
  case (Cons x rs)
  then show ?case
    by (cases x) (simp_all add: split_beta Let_def)
qed

lemma process_batch_Some:
  assumes "0 \<le> mc" and "process_batch E sched fps opts mc w = Some (res, w')"
  shows "\<exists>b rs. run E fps opts sched
                  (start_batch fps mc (logger INFO (StartingBatch (length fps)) w)) = Some b
           \<and> gather b = Some rs
           \<and> res = Inr (fst (handle_results E fps 0 rs (bworld b)))
           \<and> w' = logger INFO
                    (BatchCompleted
                       (successful (stats (snd (handle_results E fps 0 rs (bworld b)))))
                       (failed (stats (snd (handle_results E fps 0 rs (bworld b))))))
                    (snd (handle_results E fps 0 rs (bworld b)))"
  using assms
  by (auto simp: process_batch_def Let_def split_beta split: option.splits if_splits)

lemma exception_result_failed:
  "status (exception_result E p e) = FAILED
   \<and> error_message (exception_result E p e) = PStr (exn_str e)
   \<and> extracted_text (exception_result E p e) = PStr []"
  by (simp add: exception_result_def ProcessingResult_init_def extracted_text_def
        OCRResult_init_def)

lemma handle_results_length:
  "length (fst (handle_results E fps i rs w)) = length rs"
  by (simp add: handle_results_nth)

lemma handle_results_at:
  "j < length rs \<Longrightarrow>
     fst (handle_results E fps 0 rs w) ! j =
       (case rs ! j of Inr r \<Rightarrow> r | Inl e \<Rightarrow> exception_result E (fps ! j) e)"
  by (simp add: handle_results_nth split: sum.splits)

lemma example_folder_facts:
  "fst (validate_file example_env ''docs/folder.pdf'' w)"
  "calculate_file_hash example_env ''docs/folder.pdf'' w
     = Inl (Exn IsADirectoryError ''docs/folder.pdf'')"
  if "files w = files example_world" for w
  using that
  by (simp_all add: validate_file_def calculate_file_hash_def open_rb_def
        in_supported_values_def SUPPORTED_FORMATS_def MAX_FILE_SIZE_def example_defs)

lemma example_folder_raises:
  "files w = files example_world \<Longrightarrow>
     process_file example_env ''docs/folder.pdf'' opts uc w
       = (Inl (Exn IsADirectoryError ''docs/folder.pdf''),
          logger INFO (ProcessingFile ''docs/folder.pdf'') w)"
  by (simp add: process_file_unfold example_folder_facts)

lemma stored_entry_loads:
  "cached_ProcessingResult stored_entry =
     Inr \<lparr>metadata = Inr (PDict [(''file_name'', PStr ''old-name.pdf'')]),
          ocr_result = Inr (PDict [(''text'', PStr ''Stored text'')]),
          status = CACHED, error_message = PNone, processing_options = PDict []\<rparr>"
  by (simp add: cached_ProcessingResult_def stored_entry_def ProcessingResult_fields_def
        ProcessingResult_init_def)

lemma warm_world_clean: "cache_entries_clean warm_world"
  by (auto simp: cache_entries_clean_def warm_world_def stored_entry_loads split: if_splits)

lemma drive_Returned [simp]: "drive E p opts uc n (Returned r, w) = (Returned r, w)"
  by (cases n) simp_all

lemma drive_Suspended:
  "drive E p opts uc (Suc n) (Suspended ps, w) = drive E p opts uc n (pipeline_resume E p opts uc ps w)"
  by simp

lemma drive_add:
  "drive E p opts uc (n + m) x = drive E p opts uc m (drive E p opts uc n x)"
proof (induction n arbitrary: x)
  case 0
  then show ?case by simp
next
  case (Suc n)
  obtain pr w where x: "x = (pr, w)" by (cases x)
  show ?case using Suc by (cases pr) (simp_all add: x)
qed

lemma drive_more:
  "drive E p opts uc n x = (Returned r, w) \<Longrightarrow> n \<le> m
     \<Longrightarrow> drive E p opts uc m x = (Returned r, w)"
  using drive_add [of E p opts uc n "m - n" x] by simp

lemma extraction_succeeded_alt:
  "extraction_succeeded E p opts uc cp md content w =
     (completed_result E opts md content,
      logger INFO (SuccessfullyProcessed p (elapsed_seconds E))
        (bump_total_processed (bump_successful
           (if uc then store_cached p cp (completed_result E opts md content) w else w))))"
  by (simp add: extraction_succeeded_def completed_result_def Let_def)

lemma drive_answered:
  "drive E p opts uc 3 (answered E p opts uc h md content w) =
     after_call E p opts uc (get_cache_path h) md (Inr content, w)"
proof (cases uc)
  case False
  then show ?thesis
    by (simp add: answered_def after_call_def extraction_succeeded_alt finish_success_def Let_def)
next
  case True
  show ?thesis
  proof (cases "json_dumps (asdict (completed_result E opts md content))")
    case (Inl e)
    with True show ?thesis
      by (simp add: answered_def after_call_def extraction_succeeded_alt finish_success_def
            Let_def numeral_3_eq_3 pipeline_resume_def store_cached_def)
  next
    case (Inr t)
    with True show ?thesis
      by (simp add: answered_def after_call_def extraction_succeeded_alt finish_success_def
            Let_def numeral_3_eq_3 pipeline_resume_def store_cached_def)
  qed
qed

lemma drive_numeral:
  "drive E p opts uc (numeral k) (Suspended ps, w) =
     drive E p opts uc (pred_numeral k) (pipeline_resume E p opts uc ps w)"
  by (simp add: numeral_eq_Suc)

lemma resume_ApiCall_ok:
  "pipeline_resume E p opts uc (ApiCall h md req a (Inr content)) w =
     answered E p opts uc h md content w"
  by (simp add: pipeline_resume_def)

lemma resume_ApiCall_retry:
  "a < API_RETRY_ATTEMPTS - 1 \<Longrightarrow>
   pipeline_resume E p opts uc (ApiCall h md req a (Inl e)) w =
     (Suspended (ApiSleep h md req a),
      sleep (API_RETRY_DELAY * (a + 1))
        (logger ERROR (if exn_class e = MistralException then MistralApiError (a + 1) e
                       else UnexpectedError (a + 1) e) w))"
  by (simp add: pipeline_resume_def Let_def)

lemma resume_ApiCall_last:
  "\<not> a < API_RETRY_ATTEMPTS - 1 \<Longrightarrow>
   pipeline_resume E p opts uc (ApiCall h md req a (Inl e)) w =
     after_call E p opts uc cp md
       (Inl e, logger ERROR (if exn_class e = MistralException then MistralApiError (a + 1) e
                       else UnexpectedError (a + 1) e) w)"
  by (simp add: pipeline_resume_def Let_def after_call_def split_beta)

lemma resume_ApiSleep:
  "pipeline_resume E p opts uc (ApiSleep h md req a) w = issue_attempt E h md req (a + 1) w"
  by (simp add: pipeline_resume_def)

lemma after_call_Returned:
  "\<exists>r w'. after_call E p opts uc cp md x = (Returned r, w')"
  by (cases x; cases "fst x") (auto simp: after_call_def split_beta)

lemma drive_issue:
  "drive E p opts uc (4 + 2 * (2 - a)) (issue_attempt E h md req a w) =
     after_call E p opts uc (get_cache_path h) md (api_attempt E req a w)"
proof (induction E req a w rule: api_attempt.induct)
  case (1 E req a w)
  let ?w1 = "logger INFO (CallingApi (a + 1) API_RETRY_ATTEMPTS) w"
  let ?w2 = "?w1\<lparr>api_calls := api_calls ?w1 + 1\<rparr>"
  let ?r = "first_choice (chat_complete E (api_calls ?w1) req)"
  have iss: "issue_attempt E h md req a w = (Suspended (ApiCall h md req a ?r), ?w2)"
    by (simp add: issue_attempt_def Let_def)
  have fuel: "4 + 2 * (2 - a) = Suc (3 + 2 * (2 - a))" by simp
  show ?case
  proof (cases ?r)
    case (Inr content)
    have a: "api_attempt E req a w = (Inr content, ?w2)"
      using Inr by (subst api_attempt.simps) (simp add: Let_def)
    obtain r w' where rw: "after_call E p opts uc (get_cache_path h) md (Inr content, ?w2) = (Returned r, w')"
      using after_call_Returned by blast
    have "drive E p opts uc 3 (answered E p opts uc h md content ?w2) = (Returned r, w')"
      using rw by (simp only: drive_answered)
    then have "drive E p opts uc (3 + 2 * (2 - a)) (answered E p opts uc h md content ?w2) = (Returned r, w')"
      by (rule drive_more) simp
    then show ?thesis
      unfolding iss fuel drive_Suspended Inr resume_ApiCall_ok a rw .
  next
    case (Inl e)
    let ?w3 = "logger ERROR (if exn_class e = MistralException then MistralApiError (a + 1) e
                       else UnexpectedError (a + 1) e) ?w2"
    show ?thesis
    proof (cases "a < API_RETRY_ATTEMPTS - 1")
      case True
      have a: "api_attempt E req a w =
                 api_attempt E req (a + 1) (sleep (API_RETRY_DELAY * (a + 1)) ?w3)"
        using Inl True by (subst api_attempt.simps) (simp add: Let_def)
      have ih: "drive E p opts uc (4 + 2 * (2 - (a + 1)))
                  (issue_attempt E h md req (a + 1) (sleep (API_RETRY_DELAY * (a + 1)) ?w3)) =
                after_call E p opts uc (get_cache_path h) md
                  (api_attempt E req (a + 1) (sleep (API_RETRY_DELAY * (a + 1)) ?w3))"
        using 1 [OF refl refl refl Inl refl True] .
      have fuel2: "4 + 2 * (2 - a) = Suc (Suc (4 + 2 * (2 - (a + 1))))"
        using True by (simp add: API_RETRY_ATTEMPTS_def)
      show ?thesis
        unfolding iss fuel2 drive_Suspended Inl resume_ApiCall_retry [OF True] resume_ApiSleep
          ih a ..
    next
      case False
      have a: "api_attempt E req a w = (Inl e, ?w3)"
        using Inl False by (subst api_attempt.simps) (simp add: Let_def)
      obtain r w' where rw: "after_call E p opts uc (get_cache_path h) md (Inl e, ?w3) = (Returned r, w')"
        using after_call_Returned by blast
      show ?thesis
        unfolding iss fuel drive_Suspended Inl resume_ApiCall_last [OF False, of E p opts uc h md req e ?w2 "get_cache_path h"] a rw
        by simp
    qed
  qed
qed

lemma after_call_eq:
  "after_call E p opts uc cp md x =
     (case x of
        (Inr content, w) \<Rightarrow>
          (Returned (Inr (fst (extraction_succeeded E p opts uc cp md content w))),
           snd (extraction_succeeded E p opts uc cp md content w))
      | (Inl e, w) \<Rightarrow>
          (Returned (Inr (fst (extraction_failed p opts md e w))),
           snd (extraction_failed p opts md e w)))"
  by (simp add: after_call_def split_beta split: prod.splits sum.splits)

lemma drive_begin:
  "drive E p opts uc 8 (begin_extraction E p opts h w) =
     (Returned (fst (extract_document E p opts uc h (get_cache_path h) w)),
      snd (extract_document E p opts uc h (get_cache_path h) w))"
proof (cases "files w p")
  case None
  then show ?thesis by (simp add: begin_extraction_def extract_document_def)
next
  case (Some node)
  obtain md1 w1 where bm: "build_metadata E p h node w = (md1, w1)"
    by (cases "build_metadata E p h node w")
  show ?thesis
  proof (cases "open_rb w1 p")
    case (Inl e)
    with Some bm show ?thesis
      by (simp add: begin_extraction_def extract_document_def call_mistral_ocr_api_def
            split_beta)
  next
    case (Inr file_data)
    have "drive E p opts uc 8 (begin_extraction E p opts h w) =
            drive E p opts uc (4 + 2 * (2 - 0)) (issue_attempt E h md1 (ocr_request E p opts file_data) 0 w1)"
      using Some bm Inr by (simp add: begin_extraction_def)
    also have "\<dots> = after_call E p opts uc (get_cache_path h) md1
                       (api_attempt E (ocr_request E p opts file_data) 0 w1)"
      by (rule drive_issue)
    also have "\<dots> = (Returned (fst (extract_document E p opts uc h (get_cache_path h) w)),
                      snd (extract_document E p opts uc h (get_cache_path h) w))"
      using Some bm Inr
      by (simp add: extract_document_def call_mistral_ocr_api_def after_call_eq split_beta
            split: prod.splits sum.splits)
    finally show ?thesis .
  qed
qed

lemma drive_begin_more:
  "8 \<le> n \<Longrightarrow> drive E p opts uc n (begin_extraction E p opts h w) =
     (Returned (fst (extract_document E p opts uc h (get_cache_path h) w)),
      snd (extract_document E p opts uc h (get_cache_path h) w))"
  by (rule drive_more [OF drive_begin])

text \<open>
  A pipeline that runs without interruption is \<open>process_file\<close>: resumed at most eleven
  times it has returned, with the outcome and the world of \<open>process_file\<close>.
\<close>

lemma drive_pipeline_start:
  "drive E p opts uc 11 (pipeline_start E p opts uc w) =
     (Returned (fst (process_file E p opts uc w)), snd (process_file E p opts uc w))"
proof -
  let ?w1 = "logger INFO (ProcessingFile p) w"
  obtain b w2 where v: "validate_file E p ?w1 = (b, w2)"
    by (cases "validate_file E p ?w1")
  show ?thesis
  proof (cases b)
    case False
    with v show ?thesis by (simp add: pipeline_start_def process_file_def Let_def)
  next
    case True
    show ?thesis
    proof (cases "calculate_file_hash E p w2")
      case (Inl e)
      with v True show ?thesis by (simp add: pipeline_start_def process_file_def Let_def)
    next
      case (Inr h)
      show ?thesis
      proof (cases "uc \<and> cache_dir w2 (get_cache_path h) \<noteq> None")
        case False
        then have "pipeline_start E p opts uc w = begin_extraction E p opts h w2"
          using v True Inr by (auto simp add: pipeline_start_def Let_def)
        moreover have "process_file E p opts uc w = extract_document E p opts uc h (get_cache_path h) w2"
          using v True Inr False by (auto simp add: process_file_def Let_def load_cached_def)
        ultimately show ?thesis by (simp add: drive_begin_more)
      next
        case hit: True
        then obtain t where t: "cache_dir w2 (get_cache_path h) = Some t" and uc: uc by auto
        let ?w3 = "logger INFO (LoadingCached p) w2"
        have t3: "cache_dir ?w3 (get_cache_path h) = Some t" using t by (simp add: logger_def)
        have st: "pipeline_start E p opts uc w = (Suspended (CacheOpen h), ?w3)"
          using v True Inr hit by (simp add: pipeline_start_def Let_def)
        have d1: "drive E p opts uc 11 (pipeline_start E p opts uc w) =
                    drive E p opts uc 9 (pipeline_resume E p opts uc (CacheRead h t) ?w3)"
          unfolding st by (simp add: drive_numeral pipeline_resume_def t3 t)
        show ?thesis
        proof (cases "case json_loads t of Inl e \<Rightarrow> Inl e
                        | Inr cached_data \<Rightarrow> cached_ProcessingResult cached_data")
          case (Inl e)
          have "drive E p opts uc 9 (pipeline_resume E p opts uc (CacheRead h t) ?w3) =
                  drive E p opts uc 8 (begin_extraction E p opts h (logger WARNING (FailedToLoadCache e) ?w3))"
            using Inl by (simp add: drive_numeral pipeline_resume_def)
          moreover have "process_file E p opts uc w =
               extract_document E p opts uc h (get_cache_path h) (logger WARNING (FailedToLoadCache e) ?w3)"
            using v True Inr uc t Inl
            by (auto simp add: process_file_def Let_def load_cached_def split: sum.splits)
          ultimately show ?thesis using d1 by (simp add: drive_begin)
        next
          case res: (Inr result)
          have "drive E p opts uc 9 (pipeline_resume E p opts uc (CacheRead h t) ?w3) =
                  (Returned (Inr result), bump_cached ?w3)"
            using res by (simp add: drive_numeral pipeline_resume_def)
          moreover have "process_file E p opts uc w = (Inr result, bump_cached ?w3)"
            using v True Inr uc t res
            by (auto simp add: process_file_def Let_def load_cached_def split: sum.splits)
          ultimately show ?thesis using d1 by simp
        qed
      qed
    qed
  qed
qed

lemma sum_update_count:
  "i < length xs \<Longrightarrow>
     sum_list (map f (xs[i := y])) + f (xs ! i) = sum_list (map f xs) + (f y :: nat)"
proof (induction xs arbitrary: i)
  case Nil
  then show ?case by simp
next
  case (Cons x xs)
  then show ?case by (cases i) auto
qed

lemma issue_attempt_Suspended:
  "\<exists>r w'. issue_attempt E h md req a w = (Suspended (ApiCall h md req a r), w')"
  by (simp add: issue_attempt_def Let_def)

lemma begin_extraction_fuel:
  "begin_extraction E p opts h w = (Suspended ps, w') \<Longrightarrow> pstate_fuel ps = 8"
  by (auto simp: begin_extraction_def issue_attempt_def Let_def split_beta
        split: option.splits sum.splits)

lemma answered_fuel:
  "answered E p opts uc h md content w = (Suspended ps, w') \<Longrightarrow> pstate_fuel ps = 3"
  by (auto simp: answered_def finish_success_def Let_def split: if_splits)

lemma pipeline_start_fuel:
  "pipeline_start E p opts uc w = (Suspended ps, w') \<Longrightarrow> pstate_fuel ps < 12"
  by (auto simp: pipeline_start_def Let_def split_beta
        dest: begin_extraction_fuel split: if_splits sum.splits)

lemma pipeline_resume_fuel:
  assumes s: "pipeline_resume E p opts uc ps w = (Suspended ps', w')"
  shows "pstate_fuel ps' < pstate_fuel ps"
proof (cases ps)
  case (CacheOpen h)
  with s show ?thesis by (auto simp: pipeline_resume_def)
next
  case (CacheRead h t)
  with s show ?thesis by (auto simp: pipeline_resume_def split: sum.splits)
next
  case (CacheClose h outcome)
  with s show ?thesis
    by (auto simp: pipeline_resume_def dest: begin_extraction_fuel split: sum.splits)
next
  case (ApiCall h md req a r)
  show ?thesis
  proof (cases r)
    case (Inr content)
    with s ApiCall have "pstate_fuel ps' = 3"
      by (auto simp: pipeline_resume_def dest: answered_fuel)
    with ApiCall show ?thesis by simp
  next
    case (Inl e)
    with s ApiCall show ?thesis
      by (auto simp: pipeline_resume_def Let_def split_beta API_RETRY_ATTEMPTS_def
            split: if_splits)
  qed
next
  case (ApiSleep h md req a)
  with s show ?thesis by (auto simp: pipeline_resume_def issue_attempt_def Let_def)
next
  case (StoreOpen h r)
  with s show ?thesis by (auto simp: pipeline_resume_def split: sum.splits)
next
  case (StoreWrite r)
  with s show ?thesis by (auto simp: pipeline_resume_def)
next
  case (StoreClose r f)
  with s show ?thesis by (auto simp: pipeline_resume_def finish_success_def)
qed

lemma pstate_fuel_pos: "0 < pstate_fuel ps"
  by (cases ps) simp_all

lemma pstate_fuel_neq_0 [simp]: "pstate_fuel ps \<noteq> 0"
  using pstate_fuel_pos [of ps] by simp

lemma advance_task_fuel:
  "(\<forall>r. t \<noteq> Done r) \<Longrightarrow> task_fuel (advance_task E p opts t [w]) < task_fuel t"
proof (cases t)
  case Waiting
  obtain pr w' where s: "pipeline_start E p opts True w = (pr, w')"
    by (cases "pipeline_start E p opts True w")
  show ?thesis using Waiting s pipeline_start_fuel [of E p opts True w _ w']
    by (cases pr) auto
next
  case (Running ps)
  obtain pr w' where s: "pipeline_resume E p opts True ps w = (pr, w')"
    by (cases "pipeline_resume E p opts True ps w")
  show ?thesis using Running s pipeline_resume_fuel [of E p opts True ps w _ w'] pstate_fuel_pos [of ps]
    by (cases pr) auto
next
  case (Done r)
  assume "\<forall>r. t \<noteq> Done r"
  with Done show ?thesis by simp
qed

lemma advance_task_append:
  "advance_task E p opts t (ws @ ws') = advance_task E p opts (advance_task E p opts t ws) ws'"
  by (induction ws arbitrary: t) simp_all

lemma advance_task_Done [simp]: "advance_task E p opts (Done r) ws = Done r"
  by (induction ws) simp_all

lemma step_Acquire:
  "step E fps opts (Acquire i) b = Some b' \<Longrightarrow>
     i < length (tasks b) \<and> i < length fps \<and> tasks b ! i = Waiting \<and> 0 < sem_value b
     \<and> tasks b' = (tasks b)[i := advance_task E (fps ! i) opts Waiting [bworld b]]
     \<and> bworld b' = snd (pipeline_start E (fps ! i) opts True (bworld b))
     \<and> sem_value b' = (if is_running (advance_task E (fps ! i) opts Waiting [bworld b])
                       then sem_value b - 1 else sem_value b)"
  by (auto simp: step_def split: if_splits prod.splits progress.splits)

lemma step_Resume:
  "step E fps opts (Resume i) b = Some b' \<Longrightarrow>
     i < length (tasks b) \<and> i < length fps
     \<and> (\<exists>ps. tasks b ! i = Running ps
            \<and> bworld b' = snd (pipeline_resume E (fps ! i) opts True ps (bworld b)))
     \<and> tasks b' = (tasks b)[i := advance_task E (fps ! i) opts (tasks b ! i) [bworld b]]
     \<and> sem_value b' = (if is_running (advance_task E (fps ! i) opts (tasks b ! i) [bworld b])
                       then sem_value b else sem_value b + 1)"
  by (auto simp: step_def split: if_splits prod.splits progress.splits task.splits)

text \<open>What an event does to the tasks, whichever event it is.\<close>

lemma step_tasks:
  assumes "step E fps opts ev b = Some b'"
  shows "event_task ev < length (tasks b)" "event_task ev < length fps"
    "\<forall>r. tasks b ! event_task ev \<noteq> Done r"
    "tasks b' = (tasks b)[event_task ev :=
        advance_task E (fps ! event_task ev) opts (tasks b ! event_task ev) [bworld b]]"
    "sem_value b' + (if is_running (tasks b' ! event_task ev) then 1 else 0)
       = sem_value b + (if is_running (tasks b ! event_task ev) then 1 else 0)"
proof -
  let ?i = "event_task ev"
  let ?t = "advance_task E (fps ! ?i) opts (tasks b ! ?i) [bworld b]"
  have "?i < length (tasks b) \<and> ?i < length fps \<and> (\<forall>r. tasks b ! ?i \<noteq> Done r)
        \<and> tasks b' = (tasks b)[?i := ?t]
        \<and> sem_value b' + (if is_running ?t then 1 else 0)
           = sem_value b + (if is_running (tasks b ! ?i) then 1 else 0)"
  proof (cases ev)
    case (Acquire i)
    with assms step_Acquire [of E fps opts i b b'] show ?thesis by auto
  next
    case (Resume i)
    with assms step_Resume [of E fps opts i b b'] show ?thesis by auto
  qed
  then show "?i < length (tasks b)" "?i < length fps" "\<forall>r. tasks b ! ?i \<noteq> Done r"
    "tasks b' = (tasks b)[?i := ?t]"
    "sem_value b' + (if is_running (tasks b' ! ?i) then 1 else 0)
       = sem_value b + (if is_running (tasks b ! ?i) then 1 else 0)"
    by simp_all
qed

lemma step_inv:
  assumes inv: "batch_inv fps n b" and st: "step E fps opts ev b = Some b'"
  shows "batch_inv fps n b' \<and> remaining b' < remaining b"
proof -
  let ?i = "event_task ev"
  let ?t = "advance_task E (fps ! ?i) opts (tasks b ! ?i) [bworld b]"
  note s = step_tasks [OF st]
  have t': "tasks b' ! ?i = ?t" using s(1,4) by simp
  have fl: "in_flight b' + (if is_running (tasks b ! ?i) then 1 else 0)
              = in_flight b + (if is_running ?t then 1 else 0)"
    using filter_update_count [OF s(1), of is_running ?t] s(4) by (simp add: in_flight_def)
  have "sem_value b' + in_flight b' = sem_value b + in_flight b"
    using fl s(5) t' by (simp split: if_splits)
  then have 1: "batch_inv fps n b'" using inv s(4) by (simp add: batch_inv_def)
  have "remaining b' + task_fuel (tasks b ! ?i) = remaining b + task_fuel ?t"
    using sum_update_count [OF s(1), of task_fuel ?t] s(4) by (simp add: remaining_def)
  moreover have "task_fuel ?t < task_fuel (tasks b ! ?i)"
    using advance_task_fuel [OF s(3)] .
  ultimately have "remaining b' < remaining b" by simp
  with 1 show ?thesis by simp
qed

lemma run_inv:
  "batch_inv fps n b \<Longrightarrow> run E fps opts sched b = Some b' \<Longrightarrow>
     batch_inv fps n b' \<and> remaining b' + length sched \<le> remaining b"
proof (induction sched arbitrary: b)
  case Nil
  then show ?case by simp
next
  case (Cons ev sched)
  from Cons.prems(2) obtain b1 where 1: "step E fps opts ev b = Some b1"
    and 2: "run E fps opts sched b1 = Some b'"
    by (auto split: option.splits)
  from step_inv [OF Cons.prems(1) 1] Cons.IH [OF _ 2] show ?case by simp
qed

lemma start_batch_inv:
  "0 \<le> mc \<Longrightarrow> batch_inv fps (nat mc) (start_batch fps mc w)
     \<and> remaining (start_batch fps mc w) = 12 * length fps"
  by (simp add: batch_inv_def start_batch_def in_flight_def remaining_def sum_list_replicate)

lemma remaining_0: "remaining b = 0 \<Longrightarrow> \<forall>t\<in>set (tasks b). \<exists>r. t = Done r"
proof
  fix t assume r: "remaining b = 0" and t: "t \<in> set (tasks b)"
  then have "task_fuel t = 0" by (auto simp: remaining_def)
  then show "\<exists>r. t = Done r" by (cases t) auto
qed

lemma sum_list_pos:
  "0 < sum_list (map f xs) \<Longrightarrow> \<exists>x\<in>set xs. 0 < (f x :: nat)"
  by (induction xs) auto

lemma remaining_pos:
  "0 < remaining b \<Longrightarrow> \<exists>i<length (tasks b). \<forall>r. tasks b ! i \<noteq> Done r"
proof -
  assume "0 < remaining b"
  then have "0 < sum_list (map task_fuel (tasks b))"
    by (simp add: remaining_def)
  from sum_list_pos [OF this] obtain t where "t \<in> set (tasks b)" "0 < task_fuel t"
    by auto
  then show ?thesis by (auto simp: in_set_conv_nth)
qed

lemma in_flight_0:
  "in_flight b = 0 \<Longrightarrow> i < length (tasks b) \<Longrightarrow> \<not> is_running (tasks b ! i)"
  by (auto simp: in_flight_def filter_empty_conv)

lemma Resume_enabled:
  "i < length (tasks b) \<Longrightarrow> i < length fps \<Longrightarrow> tasks b ! i = Running ps \<Longrightarrow>
     step E fps opts (Resume i) b \<noteq> None"
  by (simp add: step_def split: prod.splits progress.splits)

lemma Acquire_enabled:
  "i < length (tasks b) \<Longrightarrow> i < length fps \<Longrightarrow> tasks b ! i = Waiting \<Longrightarrow> 0 < sem_value b \<Longrightarrow>
     step E fps opts (Acquire i) b \<noteq> None"
  by (simp add: step_def split: prod.splits progress.splits)

lemma step_progress:
  assumes inv: "batch_inv fps n b" and n: "0 < n" and r: "0 < remaining b"
  shows "\<exists>ev b'. step E fps opts ev b = Some b'"
proof -
  have len: "length (tasks b) = length fps" using inv by (simp add: batch_inv_def)
  show ?thesis
  proof (cases "\<exists>i<length (tasks b). is_running (tasks b ! i)")
    case True
    then obtain i where i: "i < length (tasks b)" "is_running (tasks b ! i)" by blast
    then obtain ps where "tasks b ! i = Running ps" by (cases "tasks b ! i") auto
    from Resume_enabled [OF i(1) _ this, of fps E opts] i(1) len show ?thesis by auto
  next
    case False
    with remaining_pos [OF r] obtain i where i: "i < length (tasks b)" "tasks b ! i = Waiting"
      by (metis is_running.simps(1) task.exhaust)
    from False have "filter is_running (tasks b) = []"
      by (auto simp: filter_empty_conv in_set_conv_nth)
    then have "in_flight b = 0" by (simp add: in_flight_def)
    with inv n have "0 < sem_value b" by (simp add: batch_inv_def)
    from Acquire_enabled [OF i(1) _ i(2) this, of fps E opts] i(1) len show ?thesis by auto
  qed
qed

lemma run_completes:
  "batch_inv fps n b \<Longrightarrow> 0 < n \<Longrightarrow> remaining b \<le> k \<Longrightarrow>
     \<exists>sched b'. run E fps opts sched b = Some b' \<and> remaining b' = 0"
proof (induction k arbitrary: b)
  case 0
  then have "run E fps opts [] b = Some b \<and> remaining b = 0" by simp
  then show ?case by blast
next
  case (Suc k)
  show ?case
  proof (cases "remaining b = 0")
    case True
    then have "run E fps opts [] b = Some b \<and> remaining b = 0" by simp
    then show ?thesis by blast
  next
    case False
    then have "0 < remaining b" by simp
    from step_progress [OF Suc.prems(1,2) this, of E opts]
    obtain ev b1 where 1: "step E fps opts ev b = Some b1" by auto
    from step_inv [OF Suc.prems(1) 1] Suc.prems(3)
    have 2: "batch_inv fps n b1" "remaining b1 \<le> k" by simp_all
    from Suc.IH [OF 2(1) Suc.prems(2) 2(2)]
    obtain sched b' where "run E fps opts sched b1 = Some b'" "remaining b' = 0" by blast
    with 1 have "run E fps opts (ev # sched) b = Some b' \<and> remaining b' = 0" by simp
    then show ?thesis by blast
  qed
qed

lemma gather_defined: "remaining b = 0 \<Longrightarrow> gather b \<noteq> None"
proof -
  assume "remaining b = 0"
  from remaining_0 [OF this] have "\<forall>t\<in>set (tasks b). task_outcome t \<noteq> None"
    by auto
  then show ?thesis unfolding gather_def by (rule those_map_defined)
qed

text \<open>
  Along a run, each task goes through its own pipeline only: what it has become is
  determined by its path and the worlds in which its own events took place.
\<close>

lemma run_views:
  "run E fps opts sched b = Some b' \<Longrightarrow> i < length (tasks b) \<Longrightarrow>
     tasks b' ! i = advance_task E (fps ! i) opts (tasks b ! i) (views E fps opts sched b i)"
proof (induction sched arbitrary: b)
  case Nil
  then show ?case by simp
next
  case (Cons ev sched)
  from Cons.prems(1) obtain b1 where 1: "step E fps opts ev b = Some b1"
    and 2: "run E fps opts sched b1 = Some b'"
    by (auto split: option.splits)
  note s = step_tasks [OF 1]
  have len: "i < length (tasks b1)" using s(4) Cons.prems(2) by simp
  note ih = Cons.IH [OF 2 len]
  show ?case
  proof (cases "event_task ev = i")
    case True
    have "tasks b1 ! i = advance_task E (fps ! i) opts (tasks b ! i) [bworld b]"
      using s(1,4) True by simp
    with ih 1 True show ?thesis
      using advance_task_append [of E "fps ! i" opts "tasks b ! i" "[bworld b]"]
      by simp
  next
    case False
    then have "tasks b1 ! i = tasks b ! i" using s(4) by simp
    with ih 1 False show ?thesis by simp
  qed
qed

lemma drive_deterministic:
  assumes "drive E p opts uc n x = (Returned r, w)" "drive E p opts uc m x = (Returned r', w')"
  shows "r = r' \<and> w = w'"
proof (cases "n \<le> m")
  case True
  from drive_more [OF assms(1) True] assms(2) show ?thesis by simp
next
  case False
  then have "m \<le> n" by simp
  from drive_more [OF assms(2) this] assms(1) show ?thesis by simp
qed

lemma filter_le:
  "(\<And>x. P x \<Longrightarrow> Q x) \<Longrightarrow> length (filter P xs) \<le> length (filter Q xs)"
  by (induction xs) auto

lemma is_calling_running: "is_calling t \<Longrightarrow> is_running t"
  by (cases t) auto

lemma active_calls_le: "active_calls b \<le> in_flight b"
  unfolding active_calls_def in_flight_def by (rule filter_le) (rule is_calling_running)

lemma step_Done_None:
  "tasks b ! i = Done r \<Longrightarrow> step E fps opts (Resume i) b = None"
  by (simp add: step_def)

text \<open>
  A task that is resumed \<open>k\<close> times in a row goes through \<open>k\<close> steps of its pipeline.
\<close>

lemma run_resumes:
  "run E fps opts (replicate k (Resume i)) b = Some b' \<Longrightarrow> tasks b ! i = Running ps \<Longrightarrow>
     \<exists>pr. drive E (fps ! i) opts True k (Suspended ps, bworld b) = (pr, bworld b')
          \<and> tasks b' ! i = (case pr of Suspended ps' \<Rightarrow> Running ps' | Returned r \<Rightarrow> Done r)"
proof (induction k arbitrary: b ps)
  case 0
  then show ?case by simp
next
  case (Suc k)
  from Suc.prems(1) obtain b1 where 1: "step E fps opts (Resume i) b = Some b1"
    and 2: "run E fps opts (replicate k (Resume i)) b1 = Some b'"
    by (auto split: option.splits)
  from 1 have i: "i < length (tasks b)" by (auto simp: step_def split: if_splits)
  obtain pr w1 where r: "pipeline_resume E (fps ! i) opts True ps (bworld b) = (pr, w1)"
    by (cases "pipeline_resume E (fps ! i) opts True ps (bworld b)")
  show ?case
  proof (cases pr)
    case (Suspended ps1)
    with 1 r Suc.prems(2) i have "tasks b1 ! i = Running ps1" "bworld b1 = w1"
      by (auto simp: step_def split: if_splits)
    with Suc.IH [OF 2, of ps1] r Suspended show ?thesis by simp
  next
    case (Returned r1)
    with 1 r Suc.prems(2) i have b1: "tasks b1 ! i = Done r1" "bworld b1 = w1"
      by (auto simp: step_def split: if_splits)
    have "k = 0"
    proof (rule ccontr)
      assume "k \<noteq> 0"
      then obtain k' where "k = Suc k'" by (cases k) auto
      with 2 step_Done_None [OF b1(1), of E fps opts] show False by simp
    qed
    with 2 b1 r Returned show ?thesis by simp
  qed
qed

text \<open>
  A task that no other task interrupts, from the moment it enters the semaphore to its
  end, returns or raises what \<open>process_file\<close> does in the world it started in, and leaves
  the world \<open>process_file\<close> leaves.
\<close>

lemma run_alone:
  assumes r: "run E fps opts (Acquire i # replicate k (Resume i)) b = Some b'"
      and d: "tasks b' ! i = Done outcome"
  shows "outcome = fst (process_file E (fps ! i) opts True (bworld b))
         \<and> bworld b' = snd (process_file E (fps ! i) opts True (bworld b))"
proof -
  let ?P = "process_file E (fps ! i) opts True (bworld b)"
  from r obtain b1 where 1: "step E fps opts (Acquire i) b = Some b1"
    and 2: "run E fps opts (replicate k (Resume i)) b1 = Some b'"
    by (auto split: option.splits)
  from 1 have i: "i < length (tasks b)" by (auto simp: step_def split: if_splits)
  obtain pr w1 where s: "pipeline_start E (fps ! i) opts True (bworld b) = (pr, w1)"
    by (cases "pipeline_start E (fps ! i) opts True (bworld b)")
  have "drive E (fps ! i) opts True k (pr, w1) = (Returned outcome, bworld b')"
  proof (cases pr)
    case (Suspended ps)
    with 1 s i have b1: "tasks b1 ! i = Running ps" "bworld b1 = w1"
      by (auto simp: step_def split: if_splits)
    from run_resumes [OF 2 b1(1)] obtain pr' where
      p: "drive E (fps ! i) opts True k (Suspended ps, bworld b1) = (pr', bworld b')"
         "tasks b' ! i = (case pr' of Suspended ps' \<Rightarrow> Running ps' | Returned r \<Rightarrow> Done r)"
      by blast
    from p(2) d have "pr' = Returned outcome" by (cases pr') simp_all
    with p(1) b1(2) Suspended show ?thesis by simp
  next
    case (Returned r1)
    with 1 s i have b1: "tasks b1 ! i = Done r1" "bworld b1 = w1"
      by (auto simp: step_def split: if_splits)
    have "k = 0"
    proof (rule ccontr)
      assume "k \<noteq> 0"
      then obtain k' where "k = Suc k'" by (cases k) auto
      with 2 step_Done_None [OF b1(1), of E fps opts] show False by simp
    qed
    with 2 b1 d Returned show ?thesis by simp
  qed
  with drive_deterministic [of E "fps ! i" opts True k "(pr, w1)" outcome "bworld b'" 11
         "fst ?P" "snd ?P"] drive_pipeline_start [of E "fps ! i" opts True "bworld b"] s
  show ?thesis by simp
qed

lemma run_resumes_exists:
  "tasks b ! i = Running ps \<Longrightarrow> i < length (tasks b) \<Longrightarrow> i < length fps \<Longrightarrow>
   pstate_fuel ps \<le> n \<Longrightarrow>
     \<exists>k\<le>n. \<exists>b' r. run E fps opts (replicate k (Resume i)) b = Some b' \<and> tasks b' ! i = Done r"
proof (induction n arbitrary: b ps)
  case 0
  then show ?case by simp
next
  case (Suc n)
  from Resume_enabled [OF Suc.prems(2,3,1), of E opts]
  obtain b1 where 1: "step E fps opts (Resume i) b = Some b1" by auto
  note s = step_tasks [OF 1, simplified]
  have t1: "tasks b1 ! i = advance_task E (fps ! i) opts (Running ps) [bworld b]"
    using s(4) Suc.prems(1,2) by simp
  have len: "i < length (tasks b1)" using s(4) Suc.prems(2) by simp
  show ?case
  proof (cases "tasks b1 ! i")
    case Waiting
    with t1 show ?thesis by (simp split: progress.splits)
  next
    case (Running ps1)
    have "task_fuel (tasks b1 ! i) < task_fuel (Running ps)"
      unfolding t1 by (rule advance_task_fuel) simp
    with Running Suc.prems(4) have "pstate_fuel ps1 \<le> n" by simp
    from Suc.IH [OF Running len Suc.prems(3) this]
    obtain k b' r where k: "k \<le> n" "run E fps opts (replicate k (Resume i)) b1 = Some b'"
      "tasks b' ! i = Done r" by blast
    with 1 have "Suc k \<le> Suc n \<and> run E fps opts (replicate (Suc k) (Resume i)) b = Some b'
                  \<and> tasks b' ! i = Done r" by simp
    then show ?thesis by blast
  next
    case (Done r)
    with 1 have "Suc 0 \<le> Suc n \<and> run E fps opts (replicate (Suc 0) (Resume i)) b = Some b1
                  \<and> tasks b1 ! i = Done r" by simp
    then show ?thesis by blast
  qed
qed

text \<open>
  A waiting task that finds a free slot and is not interrupted completes within eleven
  resumptions, with the outcome and the world of \<open>process_file\<close>.
\<close>

lemma run_alone_exists:
  assumes i: "i < length (tasks b)" "i < length fps" and t: "tasks b ! i = Waiting"
      and s: "0 < sem_value b"
  shows "\<exists>k\<le>11. \<exists>b'. run E fps opts (Acquire i # replicate k (Resume i)) b = Some b'
           \<and> tasks b' ! i = Done (fst (process_file E (fps ! i) opts True (bworld b)))
           \<and> bworld b' = snd (process_file E (fps ! i) opts True (bworld b))"
proof -
  from Acquire_enabled [OF i t s, of E opts]
  obtain b1 where 1: "step E fps opts (Acquire i) b = Some b1" by auto
  note a = step_Acquire [OF 1]
  have t1: "tasks b1 ! i = advance_task E (fps ! i) opts Waiting [bworld b]"
    using a i by simp
  have len: "i < length (tasks b1)" using a i by simp
  have "\<exists>k\<le>11. \<exists>b' r. run E fps opts (replicate k (Resume i)) b1 = Some b'
                       \<and> tasks b' ! i = Done r"
  proof (cases "tasks b1 ! i")
    case Waiting
    with t1 show ?thesis by (simp split: progress.splits)
  next
    case (Running ps)
    have "task_fuel (tasks b1 ! i) < task_fuel Waiting"
      unfolding t1 by (rule advance_task_fuel) simp
    with Running have "pstate_fuel ps \<le> 11" by simp
    from run_resumes_exists [OF Running len i(2) this] show ?thesis .
  next
    case (Done r)
    then have "(0::nat) \<le> 11 \<and> run E fps opts (replicate 0 (Resume i)) b1 = Some b1
                 \<and> tasks b1 ! i = Done r" by simp
    then show ?thesis by blast
  qed
  then obtain k b' r where k: "k \<le> 11" "run E fps opts (replicate k (Resume i)) b1 = Some b'"
    "tasks b' ! i = Done r" by blast
  with 1 have r: "run E fps opts (Acquire i # replicate k (Resume i)) b = Some b'" by simp
  from run_alone [OF r k(3)] k(1,3) r show ?thesis by auto
qed

section \<open>The steps of a pipeline, one by one\<close>

lemma hash_readable:
  "calculate_file_hash E p w = Inr h \<Longrightarrow> \<exists>data. open_rb w p = Inr data \<and> files w p \<noteq> None"
  by (auto simp: calculate_file_hash_def open_rb_def split: sum.splits option.splits)

lemma issue_attempt_eq:
  "issue_attempt E h md req a w =
     (Suspended (ApiCall h md req a (first_choice (chat_complete E (api_calls w) req))),
      (logger INFO (CallingApi (a + 1) API_RETRY_ATTEMPTS) w)\<lparr>api_calls := api_calls w + 1\<rparr>)"
  by (simp add: issue_attempt_def Let_def)

lemma pipeline_start_calls:
  assumes v: "fst (validate_file E p w)" and h: "calculate_file_hash E p w = Inr h"
      and c: "cache_dir w (get_cache_path h) = None"
  shows "\<exists>md req w'.
           pipeline_start E p opts True w =
             (Suspended (ApiCall h md req 0 (first_choice (chat_complete E (api_calls w) req))), w')
           \<and> files w' = files w \<and> cache_dir w' = cache_dir w \<and> stats w' = stats w
           \<and> api_calls w' = api_calls w + 1 \<and> slept w' = slept w"
proof -
  let ?w1 = "logger INFO (ProcessingFile p) w"
  obtain b w2 where vf: "validate_file E p ?w1 = (b, w2)" by (cases "validate_file E p ?w1")
  have "b = fst (validate_file E p w)"
    using validate_file_files_cong [of ?w1 w E p] vf by simp
  with v vf have w2: "w2 = ?w1" "b" using validate_file_True [of E p ?w1 w2] by simp_all
  have h1: "calculate_file_hash E p ?w1 = Inr h"
    using h by (simp add: calculate_file_hash_def open_rb_def)
  from hash_readable [OF h1] obtain data node where
    d: "open_rb ?w1 p = Inr data" "files ?w1 p = Some node" by auto
  obtain md w3 where bm: "build_metadata E p h node ?w1 = (md, w3)"
    by (cases "build_metadata E p h node ?w1")
  note f = build_metadata_frame [OF bm]
  have o3: "open_rb w3 p = Inr data" using d(1) f by (simp add: open_rb_def)
  have "pipeline_start E p opts True w =
          issue_attempt E h md (ocr_request E p opts data) 0 w3"
    using vf w2 h1 c d(2) bm o3
    by (simp add: pipeline_start_def begin_extraction_def Let_def)
  then show ?thesis using f by (simp add: issue_attempt_eq)
qed

lemma pipeline_resume_answer:
  "pipeline_resume E p opts True (ApiCall h md req a (Inr content)) w =
     (Suspended (StoreOpen h (completed_result E opts md content)),
      w\<lparr>cache_dir := (cache_dir w)(get_cache_path h \<mapsto> Malformed [])\<rparr>)"
  by (simp add: pipeline_resume_def answered_def Let_def)

lemma pipeline_resume_store:
  "pipeline_resume E p opts uc (StoreOpen h r) w =
     (Suspended (StoreClose r
        (Some (Exn TypeError ''Object of type ProcessingStatus is not JSON serializable''))), w)"
  by (simp add: pipeline_resume_def json_dumps_def asdict_not_serializable)

lemma pipeline_resume_close:
  "pipeline_resume E p opts uc (StoreClose r (Some e)) w =
     (Returned (Inr r),
      logger INFO (SuccessfullyProcessed p (elapsed_seconds E))
        (bump_total_processed (bump_successful (logger WARNING (FailedToCache e) w))))"
  by (simp add: pipeline_resume_def finish_success_def)

lemma completed_result_facts:
  "status (completed_result E opts md content) = COMPLETED"
  "error_message (completed_result E opts md content) = PNone"
  "extracted_text (completed_result E opts md content) = PStr content"
  by (simp_all add: completed_result_def Let_def ProcessingResult_init_def extracted_text_def
        OCRResult_init_def)

lemma example_scan_facts:
  "fst (validate_file example_env ''docs/scan.png'' w)"
  "calculate_file_hash example_env ''docs/scan.png'' w = Inr ''sha256:PNG''"
  "open_rb w ''docs/scan.png'' = Inr ''PNG''"
  if "files w = files example_world" for w
  using that
  by (simp_all add: validate_file_def calculate_file_hash_def open_rb_def
        in_supported_values_def SUPPORTED_FORMATS_def MAX_FILE_SIZE_def example_defs)

text \<open>With no slot at all, no task of a batch ever runs.\<close>

lemma run_zero_slots:
  assumes s: "sem_value b = 0" and f: "in_flight b = 0"
      and r: "run E fps opts sched b = Some b'"
  shows "sched = []"
proof (cases sched)
  case Nil
  then show ?thesis by simp
next
  case (Cons ev evs)
  have "step E fps opts ev b = None"
  proof (cases ev)
    case (Acquire i)
    with s show ?thesis by (simp add: step_def)
  next
    case (Resume i)
    with in_flight_0 [OF f, of i] show ?thesis
      by (auto simp: step_def split: task.splits)
  qed
  with Cons r show ?thesis by simp
qed

lemma process_batch_zero_never_returns:
  assumes "fps \<noteq> []"
  shows "process_batch E sched fps opts 0 w = None"
proof (rule ccontr)
  let ?b0 = "start_batch fps 0 (logger INFO (StartingBatch (length fps)) w)"
  assume "process_batch E sched fps opts 0 w \<noteq> None"
  then obtain b os where r: "run E fps opts sched ?b0 = Some b" and g: "gather b = Some os"
    by (auto simp: process_batch_def Let_def split: option.splits)
  have "sem_value ?b0 = 0" "in_flight ?b0 = 0"
    by (simp_all add: start_batch_def in_flight_def)
  from run_zero_slots [OF this r] r have "b = ?b0" by simp
  with g assms show False
    by (cases fps) (simp_all add: gather_def start_batch_def)
qed

lemma pipeline_start_raises:
  assumes "fst (validate_file E p w)" "calculate_file_hash E p w = Inl e"
  shows "pipeline_start E p opts uc w = (Returned (Inl e), logger INFO (ProcessingFile p) w)"
proof -
  let ?w1 = "logger INFO (ProcessingFile p) w"
  obtain b w2 where vf: "validate_file E p ?w1 = (b, w2)" by (cases "validate_file E p ?w1")
  have "b = fst (validate_file E p w)"
    using validate_file_files_cong [of ?w1 w E p] vf by simp
  with assms(1) vf have w2: "w2 = ?w1" "b" using validate_file_True [of E p ?w1 w2] by simp_all
  have h1: "calculate_file_hash E p ?w1 = Inl e"
    using assms(2) by (simp add: calculate_file_hash_def open_rb_def)
  show ?thesis using vf w2 h1 by (simp add: pipeline_start_def Let_def)
qed

lemma begin_extraction_calls:
  assumes o: "open_rb w p = Inr data"
  shows "\<exists>md w'.
           begin_extraction E p opts h w =
             (Suspended (ApiCall h md (ocr_request E p opts data) 0
                (first_choice (chat_complete E (api_calls w) (ocr_request E p opts data)))), w')
           \<and> files w' = files w \<and> cache_dir w' = cache_dir w \<and> stats w' = stats w
           \<and> api_calls w' = api_calls w + 1 \<and> slept w' = slept w
           \<and> set (log w) \<subseteq> set (log w')"
proof -
  from o obtain node where n: "files w p = Some node"
    by (auto simp: open_rb_def split: option.splits)
  obtain md w3 where bm: "build_metadata E p h node w = (md, w3)"
    by (cases "build_metadata E p h node w")
  note f = build_metadata_frame [OF bm]
  have l: "set (log w) \<subseteq> set (log w3)" using build_metadata_log [of w E p h node] bm by simp
  have o3: "open_rb w3 p = Inr data" using o f by (simp add: open_rb_def)
  have "begin_extraction E p opts h w = issue_attempt E h md (ocr_request E p opts data) 0 w3"
    using n bm o3 by (simp add: begin_extraction_def)
  then show ?thesis using f l by (auto simp add: issue_attempt_eq)
qed

lemma pipeline_start_cached:
  assumes v: "fst (validate_file E p w)" and h: "calculate_file_hash E p w = Inr h"
      and c: "cache_dir w (get_cache_path h) = Some t"
  shows "pipeline_start E p opts True w =
           (Suspended (CacheOpen h),
            logger INFO (LoadingCached p) (logger INFO (ProcessingFile p) w))"
proof -
  let ?w1 = "logger INFO (ProcessingFile p) w"
  obtain b w2 where vf: "validate_file E p ?w1 = (b, w2)" by (cases "validate_file E p ?w1")
  have "b = fst (validate_file E p w)"
    using validate_file_files_cong [of ?w1 w E p] vf by simp
  with v vf have w2: "w2 = ?w1" "b" using validate_file_True [of E p ?w1 w2] by simp_all
  have h1: "calculate_file_hash E p ?w1 = Inr h"
    using h by (simp add: calculate_file_hash_def open_rb_def)
  show ?thesis using vf w2 h1 c by (simp add: pipeline_start_def Let_def)
qed

lemma pipeline_resume_open:
  "cache_dir w (get_cache_path h) = Some t \<Longrightarrow>
     pipeline_resume E p opts uc (CacheOpen h) w = (Suspended (CacheRead h t), w)"
  by (simp add: pipeline_resume_def)

lemma pipeline_resume_read_malformed:
  "pipeline_resume E p opts uc (CacheRead h (Malformed s)) w =
     (Suspended (CacheClose h (Inl (Exn JSONDecodeError ''Expecting value''))), w)"
  by (simp add: pipeline_resume_def json_loads_def)

lemma pipeline_resume_read_loads:
  "cached_ProcessingResult v = Inr r \<Longrightarrow>
     pipeline_resume E p opts uc (CacheRead h (JsonText v)) w =
       (Suspended (CacheClose h (Inr r)), bump_cached w)"
  by (simp add: pipeline_resume_def json_loads_def)

lemma pipeline_resume_close_hit:
  "pipeline_resume E p opts uc (CacheClose h (Inr r)) w = (Returned (Inr r), w)"
  by (simp add: pipeline_resume_def)

lemma pipeline_resume_close_miss:
  "pipeline_resume E p opts uc (CacheClose h (Inl e)) w =
     begin_extraction E p opts h (logger WARNING (FailedToLoadCache e) w)"
  by (simp add: pipeline_resume_def)

text \<open>The \<open>batch\<close> command does not look at \<open>no_cache\<close>.\<close>

lemma main_batch_ignores_no_cache:
  "main_batch E sched (args\<lparr>arg_no_cache := True\<rparr>) fps w
     = main_batch E sched (args\<lparr>arg_no_cache := False\<rparr>) fps w"
  by (simp add: main_batch_def)

text \<open>
  A batch consults the cache although it was started with \<open>--no-cache\<close>: with a stored
  result for the content of \<open>docs/report.pdf\<close> in the cache directory, the batch returns
  that result with the status \<open>CACHED\<close> and does not call the service.
\<close>

lemma batch_cache_hit_despite_no_cache:
  "\<exists>r w'. main_batch example_env [Acquire 0, Resume 0, Resume 0, Resume 0]
             \<lparr>arg_no_cache = True, arg_extract_images = False, arg_auto_translate = False,
              arg_max_concurrent = 3\<rparr>
             [''docs/report.pdf''] warm_world = Some (Inr [r], w')
          \<and> status r = CACHED \<and> extracted_text r = PStr ''Stored text''
          \<and> api_calls w' = 0 \<and> cached (stats w') = 1"
proof -
  let ?args = "\<lparr>arg_no_cache = True, arg_extract_images = False, arg_auto_translate = False,
                arg_max_concurrent = 3\<rparr>"
  let ?opts = "Some [(''extract_images'', PBool False), (''preserve_formatting'', PBool True),
                     (''auto_translate'', PBool False)]"
  let ?fps = "[''docs/report.pdf'']"
  let ?p = "''docs/report.pdf''"
  let ?h = "''sha256:PDF mock content''"
  let ?zero = "\<lparr>total_processed = 0, successful = 0, failed = 0, cached = 0\<rparr>"
  let ?R = "\<lparr>metadata = Inr (PDict [(''file_name'', PStr ''old-name.pdf'')]),
          ocr_result = Inr (PDict [(''text'', PStr ''Stored text'')]),
          status = CACHED, error_message = PNone, processing_options = PDict []\<rparr>"
  let ?u1 = "logger INFO (StartingBatch (length ?fps)) (warm_world\<lparr>stats := ?zero\<rparr>)"
  have fu: "files ?u1 = files example_world" by (simp add: warm_world_def)
  have cu: "cache_dir ?u1 (get_cache_path ?h) = Some (JsonText stored_entry)"
    by (simp add: warm_world_def get_cache_path_def)
  note pA = pipeline_start_cached [OF example_report_facts(1,2) cu, OF fu fu, of ?opts]
  let ?u2 = "logger INFO (LoadingCached ?p) (logger INFO (ProcessingFile ?p) ?u1)"
  have cu2: "cache_dir ?u2 (get_cache_path ?h) = Some (JsonText stored_entry)"
    using cu by simp
  note pB = pipeline_resume_open [OF cu2, of example_env ?p ?opts True]
  note pC = pipeline_resume_read_loads [OF stored_entry_loads, of example_env ?p ?opts True ?h]
  have r: "run example_env ?fps ?opts [Acquire 0, Resume 0, Resume 0, Resume 0]
             (start_batch ?fps 3 ?u1)
             = Some \<lparr>tasks = [Done (Inr ?R)], sem_value = 3, bworld = bump_cached ?u2\<rparr>"
    using pA pB
    by (simp add: start_batch_def step_def pC pipeline_resume_close_hit)
  let ?w' = "logger INFO (BatchCompleted (successful (stats (bump_cached ?u2)))
                            (failed (stats (bump_cached ?u2)))) (bump_cached ?u2)"
  have m: "main_batch example_env [Acquire 0, Resume 0, Resume 0, Resume 0] ?args ?fps
             warm_world = Some (Inr [?R], ?w')"
    using r by (simp add: main_batch_def process_batch_def gather_def Let_def)
  have "api_calls ?w' = 0" "cached (stats ?w') = 1"
    by (simp_all add: warm_world_def example_world_def bump_cached_def)
  moreover have "status ?R = CACHED \<and> extracted_text ?R = PStr ''Stored text''"
    by (simp add: extracted_text_def)
  ultimately show ?thesis using m
    by (intro exI [of _ ?R] exI [of _ ?w']) simp
qed

section \<open>The validator\<close>

text \<open>
  Claim C6.  \<open>_validate_file\<close> returns \<open>False\<close> exactly when the file does not exist, or
  its size exceeds 50 MiB (52428800 bytes), or its MIME type is none of
  \<open>application/pdf\<close>, \<open>image/png\<close>, \<open>image/jpeg\<close>, and \<open>True\<close> otherwise; it leaves the
  files, the cache directory, the counters, the number of service calls and the waits as
  they were (it only adds a line to the log when it rejects).
\<close>

theorem validate_file_iff:
  "(fst (validate_file E file_path w) = False \<longleftrightarrow>
      (files w file_path = None
       \<or> (\<exists>node. files w file_path = Some node \<and> st_size node > 52428800)
       \<or> guess_type E file_path \<notin> Some ` {''application/pdf'', ''image/png'', ''image/jpeg''}))
   \<and> files (snd (validate_file E file_path w)) = files w
   \<and> cache_dir (snd (validate_file E file_path w)) = cache_dir w
   \<and> stats (snd (validate_file E file_path w)) = stats w
   \<and> api_calls (snd (validate_file E file_path w)) = api_calls w
   \<and> slept (snd (validate_file E file_path w)) = slept w"
  by (auto simp: validate_file_def supported_values_iff MAX_FILE_SIZE_def logger_def Let_def
           split: option.splits)

theorem validate_file_iff_witness:
  "fst (validate_file example_env ''docs/report.pdf'' example_world) = True
   \<and> fst (validate_file example_env ''docs/large.pdf'' example_world) = False
   \<and> fst (validate_file example_env ''docs/letter.docx'' example_world) = False
   \<and> fst (validate_file example_env ''docs/missing.pdf'' example_world) = False"
  using validate_file_iff [of example_env "''docs/report.pdf''" example_world]
        validate_file_iff [of example_env "''docs/large.pdf''" example_world]
        validate_file_iff [of example_env "''docs/letter.docx''" example_world]
        validate_file_iff [of example_env "''docs/missing.pdf''" example_world]
  by (simp add: example_defs)

section \<open>The statistics snapshot\<close>

text \<open>
  Claim C8.  \<open>get_statistics\<close> never divides by zero: it returns the four counters as
  they are, \<open>success_rate = successful / max(total_processed, 1) * 100\<close> and
  \<open>cache_hit_rate = cached / max(total_processed, 1) * 100\<close>, also when
  \<open>total_processed\<close> is 0.
\<close>

theorem get_statistics_snapshot:
  "get_statistics w =
     Inr \<lparr>total_processed = total_processed (stats w),
          successful = successful (stats w),
          failed = failed (stats w),
          cached = cached (stats w),
          success_rate =
            of_nat (successful (stats w)) / of_nat (max (total_processed (stats w)) 1) * 100,
          cache_hit_rate =
            of_nat (cached (stats w)) / of_nat (max (total_processed (stats w)) 1) * 100\<rparr>
   \<and> max (total_processed (stats w)) 1 \<noteq> 0"
  by (simp add: get_statistics_def py_truediv_def Stats.extend_def Statistics.fields_def
        Stats.defs Statistics.defs)

section \<open>The retrying call\<close>

text \<open>
  Claim C2.  \<open>_call_mistral_ocr_api\<close> calls the service at most 3 times; the waits it
  makes are \<open>API_RETRY_DELAY * n\<close> after the failed attempt \<open>n\<close>, one between two
  consecutive attempts; when all three attempts fail, the service was called exactly 3
  times, the waits were 2 and 4 seconds, and the error of the third attempt is raised.
\<close>

theorem call_mistral_ocr_api_retries:
  "api_calls (snd (call_mistral_ocr_api E file_path opts w)) \<le> api_calls w + 3
   \<and> slept (snd (call_mistral_ocr_api E file_path opts w)) =
       slept w @ map (\<lambda>n. API_RETRY_DELAY * n)
                   [1..<api_calls (snd (call_mistral_ocr_api E file_path opts w)) - api_calls w]
   \<and> (\<forall>file_data e0 e1 e2.
         open_rb w file_path = Inr file_data
         \<and> first_choice (chat_complete E (api_calls w)
               (ocr_request E file_path opts file_data)) = Inl e0
         \<and> first_choice (chat_complete E (api_calls w + 1)
               (ocr_request E file_path opts file_data)) = Inl e1
         \<and> first_choice (chat_complete E (api_calls w + 2)
               (ocr_request E file_path opts file_data)) = Inl e2
         \<longrightarrow> fst (call_mistral_ocr_api E file_path opts w) = Inl e2
             \<and> api_calls (snd (call_mistral_ocr_api E file_path opts w)) = api_calls w + 3
             \<and> slept (snd (call_mistral_ocr_api E file_path opts w)) = slept w @ [2, 4])"
proof (cases "open_rb w file_path")
  case (Inl e)
  then show ?thesis by (simp add: call_mistral_ocr_api_def)
next
  case (Inr file_data)
  let ?req = "ocr_request E file_path opts file_data"
  obtain r w' where rw: "api_attempt E ?req 0 w = (r, w')"
    by (cases "api_attempt E ?req 0 w")
  have c: "call_mistral_ocr_api E file_path opts w = (r, w')"
    using Inr rw by (simp add: call_mistral_ocr_api_def)
  from api_attempt_calls_slept [OF _ rw]
  have A: "api_calls w' \<le> api_calls w + 3"
    "slept w' = slept w @ map (\<lambda>n. API_RETRY_DELAY * n) [1..<api_calls w' - api_calls w]"
    by simp_all
  have B: "r = Inl e2 \<and> api_calls w' = api_calls w + 3 \<and> slept w' = slept w @ [2, 4]"
    if "first_choice (chat_complete E (api_calls w) ?req) = Inl e0"
      "first_choice (chat_complete E (api_calls w + 1) ?req) = Inl e1"
      "first_choice (chat_complete E (api_calls w + 2) ?req) = Inl e2"
    for e0 e1 e2
    using api_attempt_all_fail [OF that] rw by simp
  have C: "\<forall>fd e0 e1 e2.
         open_rb w file_path = Inr fd
         \<and> first_choice (chat_complete E (api_calls w)
               (ocr_request E file_path opts fd)) = Inl e0
         \<and> first_choice (chat_complete E (api_calls w + 1)
               (ocr_request E file_path opts fd)) = Inl e1
         \<and> first_choice (chat_complete E (api_calls w + 2)
               (ocr_request E file_path opts fd)) = Inl e2
         \<longrightarrow> r = Inl e2 \<and> api_calls w' = api_calls w + 3 \<and> slept w' = slept w @ [2, 4]"
    using B Inr by auto
  show ?thesis
    unfolding c fst_conv snd_conv using A C by blast
qed

theorem call_mistral_ocr_api_retries_witness:
  "fst (call_mistral_ocr_api failing_env ''docs/scan.png'' None example_world)
     = Inl (Exn MistralException ''service unavailable'')
   \<and> api_calls (snd (call_mistral_ocr_api failing_env ''docs/scan.png'' None example_world)) = 3
   \<and> slept (snd (call_mistral_ocr_api failing_env ''docs/scan.png'' None example_world)) = [2, 4]"
proof -
  have o: "open_rb example_world ''docs/scan.png'' = Inr ''PNG''"
    by (simp add: open_rb_def example_world_def)
  have f: "\<And>n req. first_choice (chat_complete failing_env n req)
             = Inl (Exn MistralException ''service unavailable'')"
    by (simp add: first_choice_def failing_env_def example_env_def)
  have a: "api_calls example_world = 0" "slept example_world = []"
    by (simp_all add: example_world_def)
  note T = call_mistral_ocr_api_retries [of failing_env "''docs/scan.png''" None example_world]
  have "fst (call_mistral_ocr_api failing_env ''docs/scan.png'' None example_world)
          = Inl (Exn MistralException ''service unavailable'')
        \<and> api_calls (snd (call_mistral_ocr_api failing_env ''docs/scan.png'' None example_world))
          = api_calls example_world + 3
        \<and> slept (snd (call_mistral_ocr_api failing_env ''docs/scan.png'' None example_world))
          = slept example_world @ [2, 4]"
    using T o f by blast
  then show ?thesis using a by simp
qed

section \<open>The counters of \<open>process_file\<close>\<close>

text \<open>
  Claim C1, as the code has it.  A call of \<open>process_file\<close> that runs the extraction
  increases \<open>total_processed\<close> by exactly 1, together with \<open>successful\<close> when the
  extraction succeeded and with \<open>failed\<close> when it failed.  A call that returns the cached
  result increases \<open>cached\<close> by 1 and nothing else.  A call that fails the validation
  leaves the four counters as they were, and so does a call that raises.
\<close>

theorem process_file_counters:
  assumes "process_file E p opts uc w = (res, w')"
  shows "case res of
           Inl e \<Rightarrow> stats w' = stats w
         | Inr r \<Rightarrow>
             (if \<not> fst (validate_file E p w) then stats w' = stats w
              else if status r = CACHED
              then stats w' = (stats w)\<lparr>cached := cached (stats w) + 1\<rparr>
              else if status r = COMPLETED
              then stats w' = (stats w)\<lparr>successful := successful (stats w) + 1,
                                        total_processed := total_processed (stats w) + 1\<rparr>
              else status r = FAILED
                   \<and> stats w' = (stats w)\<lparr>failed := failed (stats w) + 1,
                                           total_processed := total_processed (stats w) + 1\<rparr>)"
  using process_file_cases [OF assms] by (cases res) auto

theorem process_file_counters_witness:
  "stats (snd (process_file example_env ''docs/report.pdf'' None True example_world))
     = \<lparr>total_processed = 1, successful = 1, failed = 0, cached = 0\<rparr>"
proof -
  let ?X = "process_file example_env ''docs/report.pdf'' None True example_world"
  have c: "\<forall>v. cache_dir example_world (get_cache_path ''sha256:PDF mock content'')
               \<noteq> Some (JsonText v)"
    by (simp add: example_world_def)
  from process_file_first_attempt_success
         [OF example_report_facts(1) example_report_facts(2) c example_report_facts(3)
             example_env_answers, OF refl refl refl, of None]
  obtain r where r: "fst ?X = Inr r" "status r = COMPLETED" by auto
  from process_file_counters [of example_env "''docs/report.pdf''" None True example_world
         "fst ?X" "snd ?X"] r example_report_facts(1) [OF refl]
  show ?thesis by (simp add: example_world_def)
qed

text \<open>
  The claim as it was stated fails on the validation branch: a file of an unsupported
  format is rejected and \<open>total_processed\<close> does not move.
\<close>

theorem process_file_counters_counterexample:
  "\<not> fst (validate_file example_env ''docs/letter.docx'' example_world)
   \<and> total_processed (stats (snd (process_file example_env ''docs/letter.docx'' None True
                                    example_world)))
       \<noteq> total_processed (stats example_world) + 1"
proof -
  let ?X = "process_file example_env ''docs/letter.docx'' None True example_world"
  have v: "\<not> fst (validate_file example_env ''docs/letter.docx'' example_world)"
    by (simp add: validate_file_def in_supported_values_def SUPPORTED_FORMATS_def
          MAX_FILE_SIZE_def example_defs)
  have "?X = (fst ?X, snd ?X)" by simp
  from process_file_cases [OF this] v have "stats (snd ?X) = stats example_world"
    by (cases "fst ?X") auto
  with v show ?thesis by simp
qed

section \<open>The cache\<close>

text \<open>
  A cache entry that loads is returned with the status \<open>CACHED\<close>; \<open>cached\<close> is increased
  and the service is not called.
\<close>

lemma process_file_cache_hit:
  assumes "fst (validate_file E p w)"
      and "calculate_file_hash E p w = Inr h"
      and "cache_dir w (get_cache_path h) = Some (JsonText v)"
      and "cached_ProcessingResult v = Inr r"
  shows "process_file E p opts True w =
           (Inr r, bump_cached (logger INFO (LoadingCached p)
                                  (logger INFO (ProcessingFile p) w)))
         \<and> status r = CACHED"
  using assms
  by (simp add: process_file_unfold load_cached_def json_loads_def Let_def
        cached_ProcessingResult_status)

text \<open>
  Claim C4, at the input where the code departs from it.  \<open>docs/report.pdf\<close> is processed
  twice with the cache enabled and a service that answers.  The first call leaves an empty
  cache file for the content (\<open>json.dumps\<close> rejects the member of \<open>ProcessingStatus\<close> in
  \<open>asdict(result)\<close> after the file was opened for writing); the second call cannot load
  it, calls the service again and returns the status \<open>COMPLETED\<close>, not \<open>CACHED\<close>.
\<close>

theorem second_run_not_cached:
  "\<exists>r1 w1 r2 w2.
     process_file example_env ''docs/report.pdf'' None True example_world = (Inr r1, w1)
     \<and> status r1 = COMPLETED
     \<and> cache_dir w1 (get_cache_path ''sha256:PDF mock content'') = Some (Malformed [])
     \<and> process_file example_env ''docs/report.pdf'' None True w1 = (Inr r2, w2)
     \<and> status r2 = COMPLETED \<and> status r2 \<noteq> CACHED
     \<and> api_calls w1 = 1 \<and> api_calls w2 = 2 \<and> cached (stats w2) = 0"
proof -
  have c: "\<forall>v. cache_dir example_world (get_cache_path ''sha256:PDF mock content'')
               \<noteq> Some (JsonText v)"
    by (simp add: example_world_def)
  from process_file_first_attempt_success
         [OF example_report_facts(1) example_report_facts(2) c example_report_facts(3)
             example_env_answers, OF refl refl refl, of None]
  obtain r1 w1 where 1:
    "process_file example_env ''docs/report.pdf'' None True example_world = (Inr r1, w1)"
    "status r1 = COMPLETED"
    "cache_dir w1 (get_cache_path ''sha256:PDF mock content'') = Some (Malformed [])"
    "api_calls w1 = api_calls example_world + 1" "files w1 = files example_world"
    "cached (stats w1) = cached (stats example_world)"
    by auto
  have c1: "\<forall>v. cache_dir w1 (get_cache_path ''sha256:PDF mock content'')
               \<noteq> Some (JsonText v)"
    using 1(3) by simp
  from process_file_first_attempt_success
         [OF example_report_facts(1) example_report_facts(2) c1 example_report_facts(3)
             example_env_answers, OF 1(5) 1(5) 1(5), of None]
  obtain r2 w2 where 2:
    "process_file example_env ''docs/report.pdf'' None True w1 = (Inr r2, w2)"
    "status r2 = COMPLETED" "api_calls w2 = api_calls w1 + 1"
    "cached (stats w2) = cached (stats w1)"
    by auto
  from 1 2 show ?thesis by (simp add: example_world_def)
qed

text \<open>
  Claim C7.  When the cache file for the content of a valid document exists and does not
  load (\<open>json.loads\<close> rejects it, or \<open>ProcessingResult(**cached_data)\<close> does),
  \<open>process_file\<close> does not raise: it logs the warning, calls the service and returns the
  result it returns when there is no cache file at all, with the same counters and the
  same number of service calls.
\<close>

theorem corrupt_cache_entry_is_a_miss:
  assumes v: "fst (validate_file E p w)"
      and h: "calculate_file_hash E p w = Inr h"
      and c: "cache_dir w (get_cache_path h) = Some t"
      and bad: "json_loads t = Inl e
                \<or> (\<exists>d. json_loads t = Inr d \<and> cached_ProcessingResult d = Inl e)"
  shows "\<exists>r w' w''.
           process_file E p opts True w = (Inr r, w')
           \<and> (WARNING, FailedToLoadCache e) \<in> set (log w')
           \<and> status r \<noteq> CACHED
           \<and> cached (stats w') = cached (stats w)
           \<and> api_calls w < api_calls w'
           \<and> process_file E p opts True (w\<lparr>cache_dir := (cache_dir w)(get_cache_path h := None)\<rparr>)
               = (Inr r, w'')
           \<and> stats w'' = stats w' \<and> api_calls w'' = api_calls w'"
proof -
  let ?cp = "get_cache_path h"
  let ?w0 = "w\<lparr>cache_dir := (cache_dir w)(?cp := None)\<rparr>"
  let ?w1 = "logger INFO (ProcessingFile p) w"
  let ?w3 = "logger WARNING (FailedToLoadCache e) (logger INFO (LoadingCached p) ?w1)"
  let ?v1 = "logger INFO (ProcessingFile p) ?w0"
  let ?X = "extract_document E p opts True h ?cp ?w3"
  let ?Y = "extract_document E p opts True h ?cp ?v1"
  have l: "load_cached p ?cp ?w1 = (None, ?w3)"
    using c bad by (auto simp: load_cached_def Let_def)
  have pf: "process_file E p opts True w = ?X"
    using v h l by (simp add: process_file_unfold Let_def)
  have v0: "fst (validate_file E p ?w0)"
    using v validate_file_files_cong [of ?w0 w E p] by simp
  have h0: "calculate_file_hash E p ?w0 = Inr h"
    using h by (simp add: calculate_file_hash_def open_rb_def)
  have l0: "load_cached p ?cp ?v1 = (None, ?v1)"
    by (simp add: load_cached_def)
  have pf0: "process_file E p opts True ?w0 = ?Y"
    using v0 h0 l0 by (simp add: process_file_unfold Let_def)
  have ag: "agree ?w3 ?v1" by (simp add: agree_def)
  note eq = extract_document_agree [OF ag, of E p opts True h ?cp]
  have nn: "files ?w3 p \<noteq> None"
    using v by (auto simp: validate_file_def split: option.splits)
  obtain b where b: "open_rb ?w3 p = Inr b"
    using h by (auto simp: calculate_file_hash_def open_rb_def split: sum.splits option.splits fs_node.splits)
  note cs = extract_document_cases [OF prod.collapse [symmetric], of E p opts True h ?cp ?w3]
  obtain r where r: "fst ?X = Inr r"
    using cs nn by (cases "fst ?X") auto
  have st: "status r \<noteq> CACHED" "cached (stats (snd ?X)) = cached (stats w)"
    using cs r by auto
  have lg: "(WARNING, FailedToLoadCache e) \<in> set (log (snd ?X))"
    using extract_document_log [of ?w3 E p opts True h ?cp] by auto
  have calls: "api_calls w < api_calls (snd ?X)"
    using extract_document_calls [OF b, of E opts True h ?cp] by simp
  have "process_file E p opts True w = (Inr r, snd ?X)"
    using pf r by (metis prod.collapse)
  moreover have "process_file E p opts True ?w0 = (Inr r, snd ?Y)"
    using pf0 r eq by (metis prod.collapse)
  moreover have "stats (snd ?Y) = stats (snd ?X)" "api_calls (snd ?Y) = api_calls (snd ?X)"
    using eq by (simp_all add: agree_def)
  ultimately show ?thesis using st lg calls by blast
qed

theorem corrupt_cache_entry_is_a_miss_witness:
  "\<exists>r w'. process_file example_env ''docs/report.pdf'' None True corrupt_world = (Inr r, w')
      \<and> (WARNING, FailedToLoadCache (Exn JSONDecodeError ''Expecting value'')) \<in> set (log w')
      \<and> status r \<noteq> CACHED \<and> 0 < api_calls w'"
proof -
  have f: "files corrupt_world = files example_world"
    by (simp add: corrupt_world_def)
  have c: "cache_dir corrupt_world (get_cache_path ''sha256:PDF mock content'')
             = Some (Malformed ''{ metadata'')"
    by (simp add: corrupt_world_def get_cache_path_def)
  have bad: "json_loads (Malformed ''{ metadata'') = Inl (Exn JSONDecodeError ''Expecting value'')
             \<or> (\<exists>d. json_loads (Malformed ''{ metadata'') = Inr d
                    \<and> cached_ProcessingResult d = Inl (Exn JSONDecodeError ''Expecting value''))"
    by (simp add: json_loads_def)
  from corrupt_cache_entry_is_a_miss
         [OF example_report_facts(1) [OF f] example_report_facts(2) [OF f] c bad, of None]
  show ?thesis by (auto simp: corrupt_world_def example_world_def)
qed

section \<open>Batches\<close>

text \<open>
  Claim C10.  In every state a batch reaches, along every schedule, the number of
  pipelines in flight is at most \<open>max_concurrent\<close> (the semaphore exists for a value that
  is not negative): the free slots and the pipelines in flight add up to
  \<open>max_concurrent\<close>, and so the calls of the extraction service that are running are at
  most \<open>max_concurrent\<close>.  When \<open>max_concurrent\<close> pipelines are in flight no further task
  can enter, whatever the size of the batch, and a pipeline that returns or raises frees
  a slot.
\<close>

theorem concurrency_bound:
  assumes "0 \<le> max_concurrent"
      and "run E fps opts sched (start_batch fps max_concurrent w) = Some b"
  shows "in_flight b \<le> nat max_concurrent
         \<and> sem_value b + in_flight b = nat max_concurrent
         \<and> active_calls b \<le> nat max_concurrent
         \<and> (in_flight b = nat max_concurrent \<longrightarrow> (\<forall>i. step E fps opts (Acquire i) b = None))
         \<and> (\<forall>i b' r. step E fps opts (Resume i) b = Some b' \<and> tasks b' ! i = Done r
               \<longrightarrow> in_flight b' < nat max_concurrent \<and> 0 < sem_value b')"
proof -
  from start_batch_inv [OF assms(1)] run_inv [OF _ assms(2)]
  have inv: "batch_inv fps (nat max_concurrent) b" by blast
  then have s: "sem_value b + in_flight b = nat max_concurrent"
    by (simp add: batch_inv_def)
  have full: "\<forall>i. step E fps opts (Acquire i) b = None" if "in_flight b = nat max_concurrent"
    using that s by (simp add: step_def)
  have rel: "in_flight b' < nat max_concurrent \<and> 0 < sem_value b'"
    if st: "step E fps opts (Resume i) b = Some b'" and d: "tasks b' ! i = Done r" for i b' r
  proof -
    from step_inv [OF inv st] have "sem_value b' + in_flight b' = nat max_concurrent"
      by (simp add: batch_inv_def)
    moreover from step_Resume [OF st] d have "sem_value b' = sem_value b + 1"
      by (auto split: if_splits)
    ultimately show ?thesis by simp
  qed
  from s full rel active_calls_le [of b] show ?thesis by auto
qed

theorem concurrency_bound_witness:
  "\<exists>ps0 ps1 w'.
     run example_env [''docs/report.pdf'', ''docs/scan.png'', ''docs/folder.pdf''] None
       [Acquire 0, Acquire 1]
       (start_batch [''docs/report.pdf'', ''docs/scan.png'', ''docs/folder.pdf''] 2 example_world)
       = Some \<lparr>tasks = [Running ps0, Running ps1, Waiting], sem_value = 0, bworld = w'\<rparr>
     \<and> in_flight \<lparr>tasks = [Running ps0, Running ps1, Waiting], sem_value = 0, bworld = w'\<rparr> \<le> 2
     \<and> step example_env [''docs/report.pdf'', ''docs/scan.png'', ''docs/folder.pdf''] None
          (Acquire 2)
          \<lparr>tasks = [Running ps0, Running ps1, Waiting], sem_value = 0, bworld = w'\<rparr> = None"
proof -
  let ?fps = "[''docs/report.pdf'', ''docs/scan.png'', ''docs/folder.pdf'']"
  have c0: "cache_dir example_world (get_cache_path ''sha256:PDF mock content'') = None"
    by (simp add: example_world_def)
  from pipeline_start_calls [OF example_report_facts(1,2) c0, OF refl refl, of None]
  obtain ps0 w1 where
    p0: "pipeline_start example_env ''docs/report.pdf'' None True example_world
           = (Suspended ps0, w1)"
    and f1: "files w1 = files example_world" "cache_dir w1 = cache_dir example_world"
    by blast
  have c1: "cache_dir w1 (get_cache_path ''sha256:PNG'') = None"
    by (simp add: f1 example_world_def)
  from pipeline_start_calls [OF example_scan_facts(1,2) c1, OF f1(1) f1(1), of None]
  obtain ps1 w2 where
    p1: "pipeline_start example_env ''docs/scan.png'' None True w1 = (Suspended ps1, w2)"
    by blast
  let ?b = "\<lparr>tasks = [Running ps0, Running ps1, Waiting], sem_value = 0, bworld = w2\<rparr>"
  have r: "run example_env ?fps None [Acquire 0, Acquire 1] (start_batch ?fps 2 example_world)
             = Some ?b"
    using p0 p1 by (simp add: start_batch_def step_def)
  have f: "in_flight ?b = nat 2" by (simp add: in_flight_def)
  from concurrency_bound [OF _ r] f r show ?thesis by auto
qed

text \<open>
  Claim C3.  Whenever \<open>process_batch\<close> returns its list, in whatever order the tasks
  ran, were suspended and completed, the list has one result per input path, and the
  result at index \<open>i\<close> is the outcome of the pipeline of the path at index \<open>i\<close>, started and
  resumed in the worlds in which the schedule ran task \<open>i\<close>: the result it returned or,
  when it raised, a failed result for that path with the text of the exception as its
  error message.  A pipeline that no other task interrupts returns or raises what
  \<open>process_file\<close> does for that path in the world the task started in.  For a positive
  \<open>max_concurrent\<close> the list is returned: \<open>process_batch\<close> does not raise, no run deadlocks
  or goes on for ever (a run has at most twelve events per path), and every run that has
  started can be continued to one on which \<open>process_batch\<close> returns, so the exception of
  one task does not keep the others from producing their results.
\<close>

theorem process_batch_ordered:
  "(\<forall>sched rs w'.
      process_batch E sched fps opts max_concurrent w = Some (Inr rs, w') \<longrightarrow>
      length rs = length fps
      \<and> (\<forall>i<length fps. \<exists>outcome.
            advance_task E (fps ! i) opts Waiting
              (views E fps opts sched
                 (start_batch fps max_concurrent (logger INFO (StartingBatch (length fps)) w))
                 i) = Done outcome
            \<and> rs ! i = (case outcome of
                          Inr r \<Rightarrow> r
                        | Inl e \<Rightarrow> exception_result E (fps ! i) e)))
   \<and> (\<forall>i k b b' outcome.
         run E fps opts (Acquire i # replicate k (Resume i)) b = Some b'
         \<and> tasks b' ! i = Done outcome \<longrightarrow>
         outcome = fst (process_file E (fps ! i) opts True (bworld b))
         \<and> bworld b' = snd (process_file E (fps ! i) opts True (bworld b)))
   \<and> (\<forall>i b.
         i < length (tasks b) \<and> i < length fps \<and> tasks b ! i = Waiting \<and> 0 < sem_value b
         \<longrightarrow>
         (\<exists>k\<le>11. \<exists>b'.
             run E fps opts (Acquire i # replicate k (Resume i)) b = Some b'
             \<and> tasks b' ! i = Done (fst (process_file E (fps ! i) opts True (bworld b)))))
   \<and> (\<forall>p e. status (exception_result E p e) = FAILED
            \<and> error_message (exception_result E p e) = PStr (exn_str e)
            \<and> extracted_text (exception_result E p e) = PStr [])
   \<and> (0 < max_concurrent \<longrightarrow>
        (\<forall>sched res w'.
            process_batch E sched fps opts max_concurrent w = Some (res, w')
            \<longrightarrow> (\<exists>rs. res = Inr rs))
        \<and> (\<forall>sched b.
              run E fps opts sched
                (start_batch fps max_concurrent (logger INFO (StartingBatch (length fps)) w))
                = Some b \<longrightarrow>
              length sched \<le> 12 * length fps
              \<and> (\<exists>sched'. process_batch E (sched @ sched') fps opts max_concurrent w
                            \<noteq> None)))"
proof -
  let ?w1 = "logger INFO (StartingBatch (length fps)) w"
  let ?b0 = "start_batch fps max_concurrent ?w1"
  let ?n = "nat max_concurrent"
  have A: "length rs = length fps
           \<and> (\<forall>i<length fps. \<exists>outcome.
                 advance_task E (fps ! i) opts Waiting (views E fps opts sched ?b0 i)
                   = Done outcome
                 \<and> rs ! i = (case outcome of
                               Inr r \<Rightarrow> r
                             | Inl e \<Rightarrow> exception_result E (fps ! i) e))"
    if pb: "process_batch E sched fps opts max_concurrent w = Some (Inr rs, w')"
    for sched rs w'
  proof -
    from pb have mc: "0 \<le> max_concurrent"
      by (auto simp: process_batch_def Let_def split: if_splits)
    note inv0 = start_batch_inv [OF mc, of fps ?w1]
    from process_batch_Some [OF mc pb]
    obtain b os where r: "run E fps opts sched ?b0 = Some b" and g: "gather b = Some os"
      and res: "rs = fst (handle_results E fps 0 os (bworld b))"
      by blast
    from run_inv [OF conjunct1 [OF inv0] r] have inv: "batch_inv fps ?n b" by simp
    from gather_Some [OF g] inv
    have len: "length os = length fps"
      and dn: "\<forall>i<length fps. tasks b ! i = Done (os ! i)"
      by (simp_all add: batch_inv_def)
    have "advance_task E (fps ! i) opts Waiting (views E fps opts sched ?b0 i) = Done (os ! i)
          \<and> fst (handle_results E fps 0 os (bworld b)) ! i
              = (case os ! i of Inr r \<Rightarrow> r | Inl e \<Rightarrow> exception_result E (fps ! i) e)"
      if i: "i < length fps" for i
    proof -
      from i have "i < length (tasks ?b0)" "tasks ?b0 ! i = Waiting"
        by (simp_all add: start_batch_def)
      with run_views [OF r, of i] dn i
      have "advance_task E (fps ! i) opts Waiting (views E fps opts sched ?b0 i) = Done (os ! i)"
        by simp
      with i len handle_results_at [of i os E fps "bworld b"] show ?thesis
        by simp
    qed
    with res len show ?thesis by (auto simp add: handle_results_length)
  qed
  have B: "\<exists>rs. res = Inr rs"
    if "0 < max_concurrent" "process_batch E sched fps opts max_concurrent w = Some (res, w')"
    for sched res w'
    using that by (auto simp: process_batch_def Let_def split_beta split: option.splits)
  have C: "length sched \<le> 12 * length fps
           \<and> (\<exists>sched'. process_batch E (sched @ sched') fps opts max_concurrent w \<noteq> None)"
    if pos: "0 < max_concurrent" and r: "run E fps opts sched ?b0 = Some b" for sched b
  proof -
    from pos have mc: "0 \<le> max_concurrent" "0 < ?n" by simp_all
    note inv0 = start_batch_inv [OF mc(1), of fps ?w1]
    from run_inv [OF conjunct1 [OF inv0] r] inv0
    have inv: "batch_inv fps ?n b" and len: "remaining b + length sched \<le> 12 * length fps"
      by simp_all
    from run_completes [OF inv mc(2) order_refl, of E opts]
    obtain sched' b' where r': "run E fps opts sched' b = Some b'" and z: "remaining b' = 0"
      by blast
    from r r' have "run E fps opts (sched @ sched') ?b0 = Some b'"
      by (simp add: run_append)
    moreover from gather_defined [OF z] obtain os where "gather b' = Some os" by blast
    ultimately have "process_batch E (sched @ sched') fps opts max_concurrent w \<noteq> None"
      using mc(1) by (simp add: process_batch_def Let_def split_beta)
    with len show ?thesis by auto
  qed
  have D: "outcome = fst (process_file E (fps ! i) opts True (bworld b))
           \<and> bworld b' = snd (process_file E (fps ! i) opts True (bworld b))"
    if "run E fps opts (Acquire i # replicate k (Resume i)) b = Some b'
        \<and> tasks b' ! i = Done outcome" for i k b b' outcome
    using run_alone [of E fps opts i k b b' outcome] that by blast
  have D': "\<exists>k\<le>11. \<exists>b'.
              run E fps opts (Acquire i # replicate k (Resume i)) b = Some b'
              \<and> tasks b' ! i = Done (fst (process_file E (fps ! i) opts True (bworld b)))"
    if "i < length (tasks b) \<and> i < length fps \<and> tasks b ! i = Waiting \<and> 0 < sem_value b"
    for i b
  proof -
    from that have a: "i < length (tasks b)" "i < length fps" "tasks b ! i = Waiting"
      "0 < sem_value b" by simp_all
    from run_alone_exists [OF a, of E opts]
    obtain k b' where "k \<le> 11"
      "run E fps opts (Acquire i # replicate k (Resume i)) b = Some b'"
      "tasks b' ! i = Done (fst (process_file E (fps ! i) opts True (bworld b)))"
      by auto
    then show ?thesis by auto
  qed
  from A exception_result_failed B C D D' show ?thesis by blast
qed

theorem process_batch_ordered_witness:
  "\<exists>r1 w'.
     process_batch example_env [Acquire 1, Acquire 0, Resume 1, Resume 1, Resume 1]
       [''docs/folder.pdf'', ''docs/report.pdf''] None 2 example_world
       = Some (Inr [exception_result example_env ''docs/folder.pdf''
                      (Exn IsADirectoryError ''docs/folder.pdf''), r1], w')
     \<and> status r1 = COMPLETED
     \<and> extracted_text r1 = PStr ''Extracted text from document.''
     \<and> length [exception_result example_env ''docs/folder.pdf''
                  (Exn IsADirectoryError ''docs/folder.pdf''), r1]
         = length [''docs/folder.pdf'', ''docs/report.pdf'']
     \<and> (\<exists>outcome.
           advance_task example_env ''docs/report.pdf'' None Waiting
             (views example_env [''docs/folder.pdf'', ''docs/report.pdf''] None
                [Acquire 1, Acquire 0, Resume 1, Resume 1, Resume 1]
                (start_batch [''docs/folder.pdf'', ''docs/report.pdf''] 2
                   (logger INFO (StartingBatch 2) example_world)) 1) = Done outcome
           \<and> r1 = (case outcome of
                      Inr r \<Rightarrow> r
                    | Inl e \<Rightarrow> exception_result example_env ''docs/report.pdf'' e))"
proof -
  let ?fps = "[''docs/folder.pdf'', ''docs/report.pdf'']"
  let ?sched = "[Acquire 1, Acquire 0, Resume 1, Resume 1, Resume 1]"
  let ?w1 = "logger INFO (StartingBatch (length ?fps)) example_world"
  let ?e = "Exn IsADirectoryError ''docs/folder.pdf''"
  let ?h = "''sha256:PDF mock content''"
  have f1: "files ?w1 = files example_world" by simp
  have c1: "cache_dir ?w1 (get_cache_path ?h) = None" by (simp add: example_world_def)
  from pipeline_start_calls [OF example_report_facts(1,2) c1, OF f1 f1, of None]
  obtain md req wA where
    pA: "pipeline_start example_env ''docs/report.pdf'' None True ?w1
           = (Suspended (ApiCall ?h md req 0
                (first_choice (chat_complete example_env (api_calls ?w1) req))), wA)"
    and fA: "files wA = files example_world"
    by auto
  note pA' = pA [unfolded example_env_answers]
  note pB = pipeline_start_raises [OF example_folder_facts [OF fA], of None True]
  let ?R = "completed_result example_env None md ''Extracted text from document.''"
  have r: "\<exists>wZ. run example_env ?fps None ?sched (start_batch ?fps 2 ?w1)
             = Some \<lparr>tasks = [Done (Inl ?e), Done (Inr ?R)], sem_value = 2, bworld = wZ\<rparr>"
    using pA' pB
    by (simp add: start_batch_def step_def pipeline_resume_answer pipeline_resume_store
          pipeline_resume_close)
  then obtain w' where pb: "process_batch example_env ?sched ?fps None 2 example_world
            = Some (Inr [exception_result example_env ''docs/folder.pdf'' ?e, ?R], w')"
    by (auto simp add: process_batch_def gather_def Let_def)
  from process_batch_ordered [of example_env ?fps None 2 example_world] pb
  have "length [exception_result example_env ''docs/folder.pdf'' ?e, ?R] = length ?fps
        \<and> (\<forall>i<length ?fps. \<exists>outcome.
             advance_task example_env (?fps ! i) None Waiting
               (views example_env ?fps None ?sched (start_batch ?fps 2 ?w1) i) = Done outcome
             \<and> [exception_result example_env ''docs/folder.pdf'' ?e, ?R] ! i
                 = (case outcome of
                      Inr r \<Rightarrow> r
                    | Inl e \<Rightarrow> exception_result example_env (?fps ! i) e))"
    by blast
  then have L: "length [exception_result example_env ''docs/folder.pdf'' ?e, ?R] = length ?fps"
    and Q: "\<forall>i<length ?fps. \<exists>outcome.
             advance_task example_env (?fps ! i) None Waiting
               (views example_env ?fps None ?sched (start_batch ?fps 2 ?w1) i) = Done outcome
             \<and> [exception_result example_env ''docs/folder.pdf'' ?e, ?R] ! i
                 = (case outcome of
                      Inr r \<Rightarrow> r
                    | Inl e \<Rightarrow> exception_result example_env (?fps ! i) e)"
    by blast+
  have "(1::nat) < length ?fps" by simp
  from Q [rule_format, OF this] obtain outcome where
    o: "advance_task example_env (?fps ! 1) None Waiting
          (views example_env ?fps None ?sched (start_batch ?fps 2 ?w1) 1) = Done outcome"
       "[exception_result example_env ''docs/folder.pdf'' ?e, ?R] ! 1
          = (case outcome of
               Inr r \<Rightarrow> r
             | Inl e \<Rightarrow> exception_result example_env (?fps ! 1) e)"
    by blast
  from o(2) have "?R = (case outcome of
                         Inr r \<Rightarrow> r
                       | Inl e \<Rightarrow> exception_result example_env ''docs/report.pdf'' e)"
    by (cases outcome) simp_all
  with o(1) have "\<exists>outcome.
          advance_task example_env ''docs/report.pdf'' None Waiting
            (views example_env ?fps None ?sched
               (start_batch ?fps 2 (logger INFO (StartingBatch 2) example_world)) 1)
            = Done outcome
          \<and> ?R = (case outcome of
                    Inr r \<Rightarrow> r
                  | Inl e \<Rightarrow> exception_result example_env ''docs/report.pdf'' e)"
    by (auto simp add: numeral_2_eq_2 simp del: views.simps advance_task.simps)
  with pb L completed_result_facts [of example_env None md "''Extracted text from document.''"]
  show ?thesis by (simp del: views.simps advance_task.simps)
qed

text \<open>
  Claim C9, at the input where the code departs from it.  \<open>process_batch\<close> has no
  parameter for the cache and runs every pipeline with \<open>use_cache\<close> at its default \<open>True\<close>,
  and the \<open>batch\<close> command does not pass \<open>--no-cache\<close> on (\<open>main_batch_ignores_no_cache\<close>),
  so a batch consults the cache.  But a successful extraction does not populate it: the
  \<open>batch\<close> command is run twice with \<open>--no-cache\<close> on \<open>docs/report.pdf\<close>, with a service
  that answers.  The first batch leaves an empty cache file for the content (\<open>json.dumps\<close>
  rejects the member of \<open>ProcessingStatus\<close> in \<open>asdict(result)\<close> after the file was opened
  for writing); the second batch finds that file and logs that it loads the cached result,
  cannot parse it, calls the service again and returns the status \<open>COMPLETED\<close>, not
  \<open>CACHED\<close>.
\<close>

theorem batch_never_populates_cache:
  "\<exists>r1 w1 r2 w2.
     main_batch example_env [Acquire 0, Resume 0, Resume 0, Resume 0]
       \<lparr>arg_no_cache = True, arg_extract_images = False, arg_auto_translate = False,
        arg_max_concurrent = 3\<rparr>
       [''docs/report.pdf''] example_world = Some (Inr [r1], w1)
     \<and> status r1 = COMPLETED
     \<and> cache_dir w1 (get_cache_path ''sha256:PDF mock content'') = Some (Malformed [])
     \<and> main_batch example_env
         [Acquire 0, Resume 0, Resume 0, Resume 0, Resume 0, Resume 0, Resume 0]
         \<lparr>arg_no_cache = True, arg_extract_images = False, arg_auto_translate = False,
          arg_max_concurrent = 3\<rparr>
         [''docs/report.pdf''] w1 = Some (Inr [r2], w2)
     \<and> (INFO, LoadingCached ''docs/report.pdf'') \<in> set (log w2)
     \<and> (WARNING, FailedToLoadCache (Exn JSONDecodeError ''Expecting value'')) \<in> set (log w2)
     \<and> status r2 = COMPLETED \<and> status r2 \<noteq> CACHED
     \<and> api_calls w1 = 1 \<and> api_calls w2 = 2 \<and> cached (stats w2) = 0"
proof -
  let ?args = "\<lparr>arg_no_cache = True, arg_extract_images = False, arg_auto_translate = False,
                arg_max_concurrent = 3\<rparr>"
  let ?opts = "Some [(''extract_images'', PBool False), (''preserve_formatting'', PBool True),
                     (''auto_translate'', PBool False)]"
  let ?fps = "[''docs/report.pdf'']"
  let ?p = "''docs/report.pdf''"
  let ?h = "''sha256:PDF mock content''"
  let ?t = "''Extracted text from document.''"
  let ?zero = "\<lparr>total_processed = 0, successful = 0, failed = 0, cached = 0\<rparr>"
  let ?te = "Exn TypeError ''Object of type ProcessingStatus is not JSON serializable''"
  let ?je = "Exn JSONDecodeError ''Expecting value''"
  let ?u1 = "logger INFO (StartingBatch (length ?fps)) (example_world\<lparr>stats := ?zero\<rparr>)"
  have fu: "files ?u1 = files example_world" by simp
  have cu: "cache_dir ?u1 (get_cache_path ?h) = None" by (simp add: example_world_def)
  from pipeline_start_calls [OF example_report_facts(1,2) cu, OF fu fu, of ?opts]
  obtain md req uA where
    pA: "pipeline_start example_env ?p ?opts True ?u1
           = (Suspended (ApiCall ?h md req 0 (Inr ?t)), uA)"
    and fA: "files uA = files example_world" "api_calls uA = 1"
    by (auto simp: example_env_answers example_world_def)
  let ?R1 = "completed_result example_env ?opts md ?t"
  let ?uZ = "logger INFO (SuccessfullyProcessed ?p (elapsed_seconds example_env))
               (bump_total_processed (bump_successful (logger WARNING (FailedToCache ?te)
                  (uA\<lparr>cache_dir := (cache_dir uA)(get_cache_path ?h \<mapsto> Malformed [])\<rparr>))))"
  have r1: "run example_env ?fps ?opts [Acquire 0, Resume 0, Resume 0, Resume 0]
              (start_batch ?fps 3 ?u1)
             = Some \<lparr>tasks = [Done (Inr ?R1)], sem_value = 3, bworld = ?uZ\<rparr>"
    using pA
    by (simp add: start_batch_def step_def pipeline_resume_answer pipeline_resume_store
          pipeline_resume_close)
  let ?w1 = "logger INFO (BatchCompleted (successful (stats ?uZ)) (failed (stats ?uZ))) ?uZ"
  have m1: "main_batch example_env [Acquire 0, Resume 0, Resume 0, Resume 0] ?args ?fps
              example_world = Some (Inr [?R1], ?w1)"
    using r1 by (simp add: main_batch_def process_batch_def gather_def Let_def)
  have f1: "files ?w1 = files example_world" using fA by simp
  have c1: "cache_dir ?w1 (get_cache_path ?h) = Some (Malformed [])" by simp
  have a1: "api_calls ?w1 = 1" using fA by simp
  let ?v1 = "logger INFO (StartingBatch (length ?fps)) (?w1\<lparr>stats := ?zero\<rparr>)"
  have fv: "files ?v1 = files example_world" using fA by simp
  have cv: "cache_dir ?v1 (get_cache_path ?h) = Some (Malformed [])" by simp
  note pB = pipeline_start_cached [OF example_report_facts(1,2) cv, OF fv fv, of ?opts]
  let ?v2 = "logger INFO (LoadingCached ?p) (logger INFO (ProcessingFile ?p) ?v1)"
  have cv2: "cache_dir ?v2 (get_cache_path ?h) = Some (Malformed [])" by simp
  note pC = pipeline_resume_open [OF cv2, of example_env ?p ?opts True]
  let ?v3 = "logger WARNING (FailedToLoadCache ?je) ?v2"
  have fv3: "files ?v3 = files example_world" using fA by simp
  from begin_extraction_calls [OF example_report_facts(3) [OF fv3], of example_env ?opts ?h]
  obtain md2 vA where
    pD: "begin_extraction example_env ?p ?opts ?h ?v3
           = (Suspended (ApiCall ?h md2
                (ocr_request example_env ?p ?opts ''PDF mock content'') 0 (Inr ?t)), vA)"
    and fD: "api_calls vA = 2" "stats vA = ?zero" "set (log ?v3) \<subseteq> set (log vA)"
    using a1 by (auto simp: example_env_answers)
  let ?R2 = "completed_result example_env ?opts md2 ?t"
  let ?vZ = "logger INFO (SuccessfullyProcessed ?p (elapsed_seconds example_env))
               (bump_total_processed (bump_successful (logger WARNING (FailedToCache ?te)
                  (vA\<lparr>cache_dir := (cache_dir vA)(get_cache_path ?h \<mapsto> Malformed [])\<rparr>))))"
  have s1: "run example_env ?fps ?opts [Acquire 0, Resume 0, Resume 0] (start_batch ?fps 3 ?v1)
              = Some \<lparr>tasks = [Running (CacheClose ?h (Inl ?je))], sem_value = 2, bworld = ?v2\<rparr>"
    using pB pC
    by (simp add: start_batch_def step_def pipeline_resume_read_malformed)
  have s2: "run example_env ?fps ?opts [Resume 0, Resume 0, Resume 0, Resume 0]
              \<lparr>tasks = [Running (CacheClose ?h (Inl ?je))], sem_value = 2, bworld = ?v2\<rparr>
              = Some \<lparr>tasks = [Done (Inr ?R2)], sem_value = 3, bworld = ?vZ\<rparr>"
    using pD
    by (simp add: step_def pipeline_resume_close_miss pipeline_resume_answer
          pipeline_resume_store pipeline_resume_close)
  have r2: "run example_env ?fps ?opts
              [Acquire 0, Resume 0, Resume 0, Resume 0, Resume 0, Resume 0, Resume 0]
              (start_batch ?fps 3 ?v1)
             = Some \<lparr>tasks = [Done (Inr ?R2)], sem_value = 3, bworld = ?vZ\<rparr>"
    using run_append [of example_env ?fps ?opts "[Acquire 0, Resume 0, Resume 0]"
            "[Resume 0, Resume 0, Resume 0, Resume 0]" "start_batch ?fps 3 ?v1"]
    by (simp only: s1 s2 append.simps option.case)
  let ?w2 = "logger INFO (BatchCompleted (successful (stats ?vZ)) (failed (stats ?vZ))) ?vZ"
  have m2: "main_batch example_env
              [Acquire 0, Resume 0, Resume 0, Resume 0, Resume 0, Resume 0, Resume 0]
              ?args ?fps ?w1 = Some (Inr [?R2], ?w2)"
    using r2 by (simp add: main_batch_def process_batch_def gather_def Let_def)
  have l2: "(INFO, LoadingCached ?p) \<in> set (log ?w2)"
           "(WARNING, FailedToLoadCache ?je) \<in> set (log ?w2)"
    using fD(3) by auto
  have a2: "api_calls ?w2 = 2" "cached (stats ?w2) = 0" using fD by simp_all
  from m1 m2 c1 a1 a2 l2
    completed_result_facts(1) [of example_env ?opts md ?t]
    completed_result_facts(1) [of example_env ?opts md2 ?t]
  show ?thesis by (intro exI [of _ ?R1] exI [of _ ?w1] exI [of _ ?R2] exI [of _ ?w2]) simp
qed

end
